theory Spec2Isabelle
  imports Complex_Main "HOL-Library.Word"
begin

unbundle bit_operations_syntax

text \<open>
  A desktop utility that builds, signs and sends multipart requests and keeps presets and
  a bounded history in local storage. The theory embeds its codec (lib/base64.ts), signer
  (lib/sign.ts), request executor (lib/request.ts, lib/time.ts) and persistence store
  (lib/storage.ts) together with the platform functions they call, and settles the claims
  C1 to C10 of its specification.
\<close>

section \<open>JavaScript values\<close>

text \<open>
  A JavaScript string is a sequence of 16-bit code units. A string literal of the program
  is written \<open>js ''...''\<close>. A finite JavaScript number is a rational; \<open>undefined\<close>
  (an absent optional field) is \<open>None\<close>.
\<close>

type_synonym jschar = "16 word"
type_synonym jsstring = "16 word list"
type_synonym number = rat
type_synonym byte = "8 word"
type_synonym u32 = "32 word"

definition js :: "string \<Rightarrow> jsstring" where
  "js s = map of_char s"

text \<open>
  What a platform function throws. \<open>Rejected\<close> is a promise rejected for a reason of
  its own (no native runtime, a failed command, a network failure, an abort).
\<close>

datatype js_error = URIError | InvalidCharacterError | RangeError | Rejected jsstring

text \<open>What \<open>JSON.parse\<close> produces and \<open>JSON.stringify\<close> consumes.\<close>

datatype json =
    JNull
  | JBool bool
  | JNum number
  | JStr jsstring
  | JArr "json list"
  | JObj "(jsstring \<times> json) list"

text \<open>\<open>!v\<close> is false exactly on the truthy values.\<close>

fun truthy :: "json \<Rightarrow> bool" where
  "truthy JNull = False"
| "truthy (JBool b) = b"
| "truthy (JNum n) = (n \<noteq> 0)"
| "truthy (JStr s) = (s \<noteq> [])"
| "truthy (JArr xs) = True"
| "truthy (JObj fs) = True"

text \<open>\<open>typeof v === "object"\<close> (it holds of \<open>null\<close> and of arrays).\<close>

fun typeof_object :: "json \<Rightarrow> bool" where
  "typeof_object JNull = True"
| "typeof_object (JArr xs) = True"
| "typeof_object (JObj fs) = True"
| "typeof_object v = False"

text \<open>Property access \<open>v.k\<close>; \<open>None\<close> is \<open>undefined\<close>.\<close>

fun getProp :: "json \<Rightarrow> jsstring \<Rightarrow> json option" where
  "getProp (JObj fs) k = map_of fs k"
| "getProp v k = None"

text \<open>\<open>!v\<close> on a possibly undefined value.\<close>

fun falsy :: "json option \<Rightarrow> bool" where
  "falsy None = True"
| "falsy (Some v) = (\<not> truthy v)"

text \<open>\<open>ToIntegerOrInfinity\<close> on a finite number: truncation towards zero.\<close>

definition toInteger :: "number \<Rightarrow> int" where
  "toInteger r = (if r < 0 then - \<lfloor>- r\<rfloor> else \<lfloor>r\<rfloor>)"

text \<open>\<open>Array.prototype.slice(start, end)\<close>: a negative index counts from the end.\<close>

definition slice :: "number \<Rightarrow> number \<Rightarrow> 'a list \<Rightarrow> 'a list" where
  "slice start end xs =
     (let len = int (length xs);
          relativeStart = toInteger start;
          k = (if relativeStart < 0 then max (len + relativeStart) 0 else min relativeStart len);
          relativeEnd = toInteger end;
          final = (if relativeEnd < 0 then max (len + relativeEnd) 0 else min relativeEnd len)
      in take (nat (final - k)) (drop (nat k) xs))"

text \<open>\<open>Array.prototype.findIndex\<close>: the first index whose element satisfies the predicate, else -1.\<close>

fun findIndex :: "('a \<Rightarrow> bool) \<Rightarrow> 'a list \<Rightarrow> int" where
  "findIndex P [] = - 1"
| "findIndex P (x # xs) =
     (if P x then 0 else (let i = findIndex P xs in if i = - 1 then - 1 else i + 1))"

section \<open>Platform functions\<close>

text \<open>
  The program calls into the JavaScript platform: the global functions of ECMAScript
  (\<open>encodeURIComponent\<close>, \<open>decodeURIComponent\<close>, \<open>escape\<close>, \<open>unescape\<close>), the
  host's \<open>btoa\<close> and \<open>atob\<close>, Node's \<open>Buffer\<close> and the MD5 of the crypto-js
  package. They are written here as their standards define them; an exception is the
  \<open>Inl\<close> of a sum.
\<close>

subsection \<open>Code points, UTF-16 and UTF-8\<close>

definition is_high :: "jschar \<Rightarrow> bool" where
  "is_high c = (0xD800 \<le> unat c \<and> unat c \<le> 0xDBFF)"

definition is_low :: "jschar \<Rightarrow> bool" where
  "is_low c = (0xDC00 \<le> unat c \<and> unat c \<le> 0xDFFF)"

definition is_surrogate :: "nat \<Rightarrow> bool" where
  "is_surrogate cp = (0xD800 \<le> cp \<and> cp \<le> 0xDFFF)"

text \<open>
  The code points of a string: a high surrogate followed by a low one is one code point,
  every other code unit stands for itself, an unpaired surrogate included.
\<close>

fun code_points :: "jsstring \<Rightarrow> nat list" where
  "code_points [] = []"
| "code_points [c] = [unat c]"
| "code_points (h # l # cs) =
     (if is_high h \<and> is_low l
      then (0x10000 + (unat h - 0xD800) * 0x400 + (unat l - 0xDC00)) # code_points cs
      else unat h # code_points (l # cs))"

definition utf16_encode :: "nat \<Rightarrow> jsstring" where
  "utf16_encode cp =
     (if cp < 0x10000 then [of_nat cp]
      else [of_nat (0xD800 + (cp - 0x10000) div 0x400), of_nat (0xDC00 + (cp - 0x10000) mod 0x400)])"

text \<open>
  The conversion of a string to a \<open>USVString\<close> (Web IDL), which the platform applies
  to a string argument of that type: every unpaired surrogate is replaced by U+FFFD.
\<close>

definition toUSVString :: "jsstring \<Rightarrow> jsstring" where
  "toUSVString s =
     concat (map (\<lambda>cp. if is_surrogate cp then [0xFFFD] else utf16_encode cp) (code_points s))"

definition utf8_encode :: "nat \<Rightarrow> byte list" where
  "utf8_encode cp =
     (if cp < 0x80 then [of_nat cp]
      else if cp < 0x800 then [of_nat (0xC0 + cp div 0x40), of_nat (0x80 + cp mod 0x40)]
      else if cp < 0x10000 then
        [of_nat (0xE0 + cp div 0x1000), of_nat (0x80 + cp div 0x40 mod 0x40),
         of_nat (0x80 + cp mod 0x40)]
      else
        [of_nat (0xF0 + cp div 0x40000), of_nat (0x80 + cp div 0x1000 mod 0x40),
         of_nat (0x80 + cp div 0x40 mod 0x40), of_nat (0x80 + cp mod 0x40)])"

text \<open>The length of the sequence a lead byte opens; 0 for a byte that opens none.\<close>

definition utf8_need :: "byte \<Rightarrow> nat" where
  "utf8_need b =
     (let u = unat b in
      if u < 0x80 then 1
      else if 0xC2 \<le> u \<and> u \<le> 0xDF then 2
      else if 0xE0 \<le> u \<and> u \<le> 0xEF then 3
      else if 0xF0 \<le> u \<and> u \<le> 0xF4 then 4
      else 0)"

definition utf8_cont :: "byte \<Rightarrow> bool" where
  "utf8_cont c = (0x80 \<le> unat c \<and> unat c \<le> 0xBF)"

text \<open>
  The range of the second byte after the lead byte \<open>b\<close>: narrower after E0 and F0 (no
  overlong form), after ED (no surrogate) and after F4 (nothing above U+10FFFF).
\<close>

definition utf8_second :: "byte \<Rightarrow> byte \<Rightarrow> bool" where
  "utf8_second b c =
     ((if unat b = 0xE0 then 0xA0 else if unat b = 0xF0 then 0x90 else 0x80) \<le> unat c
      \<and> unat c \<le> (if unat b = 0xED then 0x9F else if unat b = 0xF4 then 0x8F else 0xBF))"

text \<open>The code point of exactly one well-formed UTF-8 sequence.\<close>

fun utf8_scalar :: "byte list \<Rightarrow> nat option" where
  "utf8_scalar [a] = (if utf8_need a = 1 then Some (unat a) else None)"
| "utf8_scalar [a, b] =
     (if utf8_need a = 2 \<and> utf8_second a b
      then Some ((unat a - 0xC0) * 0x40 + (unat b - 0x80)) else None)"
| "utf8_scalar [a, b, c] =
     (if utf8_need a = 3 \<and> utf8_second a b \<and> utf8_cont c
      then Some ((unat a - 0xE0) * 0x1000 + (unat b - 0x80) * 0x40 + (unat c - 0x80))
      else None)"
| "utf8_scalar [a, b, c, d] =
     (if utf8_need a = 4 \<and> utf8_second a b \<and> utf8_cont c \<and> utf8_cont d
      then Some ((unat a - 0xF0) * 0x40000 + (unat b - 0x80) * 0x1000
                 + (unat c - 0x80) * 0x40 + (unat d - 0x80))
      else None)"
| "utf8_scalar bs = None"

text \<open>
  Where no well-formed sequence starts, the decoder replaces the longest prefix that
  could still open one (at least the byte itself) by U+FFFD.
\<close>

definition utf8_subpart :: "byte \<Rightarrow> byte list \<Rightarrow> nat" where
  "utf8_subpart b bs =
     (if utf8_need b \<le> 1 then 1
      else case bs of
             [] \<Rightarrow> 1
           | c # cs \<Rightarrow>
               if utf8_second b c
               then 2 + length (takeWhile utf8_cont (take (utf8_need b - 2) cs))
               else 1)"

function utf8_decode :: "byte list \<Rightarrow> nat list" where
  "utf8_decode [] = []"
| "utf8_decode (b # bs) =
     (case utf8_scalar (take (utf8_need b) (b # bs)) of
        Some cp \<Rightarrow> cp # utf8_decode (drop (utf8_need b - 1) bs)
      | None \<Rightarrow> 0xFFFD # utf8_decode (drop (utf8_subpart b bs - 1) bs))"
  by pat_completeness auto
termination
  by (relation "measure length") auto

subsection \<open>Base64\<close>

definition b64_char :: "nat \<Rightarrow> jschar" where
  "b64_char n =
     (if n < 26 then of_nat (0x41 + n)
      else if n < 52 then of_nat (0x61 + (n - 26))
      else if n < 62 then of_nat (0x30 + (n - 52))
      else if n = 62 then 0x2B
      else 0x2F)"

definition b64_value :: "jschar \<Rightarrow> nat option" where
  "b64_value c =
     (let u = unat c in
      if 0x41 \<le> u \<and> u \<le> 0x5A then Some (u - 0x41)
      else if 0x61 \<le> u \<and> u \<le> 0x7A then Some (u - 0x61 + 26)
      else if 0x30 \<le> u \<and> u \<le> 0x39 then Some (u - 0x30 + 52)
      else if u = 0x2B then Some 62
      else if u = 0x2F then Some 63
      else None)"

text \<open>\<open>Buffer\<close> reads the URL-safe alphabet as well.\<close>

definition b64url_value :: "jschar \<Rightarrow> nat option" where
  "b64url_value c =
     (if unat c = 0x2D then Some 62 else if unat c = 0x5F then Some 63 else b64_value c)"

fun base64_encode :: "byte list \<Rightarrow> jsstring" where
  "base64_encode [] = []"
| "base64_encode [a] =
     [b64_char (unat a div 4), b64_char (unat a mod 4 * 16), 0x3D, 0x3D]"
| "base64_encode [a, b] =
     [b64_char (unat a div 4), b64_char (unat a mod 4 * 16 + unat b div 16),
      b64_char (unat b mod 16 * 4), 0x3D]"
| "base64_encode (a # b # c # r) =
     [b64_char (unat a div 4), b64_char (unat a mod 4 * 16 + unat b div 16),
      b64_char (unat b mod 16 * 4 + unat c div 64), b64_char (unat c mod 64)]
     @ base64_encode r"

text \<open>Four sextets make three bytes; of a shorter rest the bits that fill no byte are dropped.\<close>

fun sextets_to_bytes :: "nat list \<Rightarrow> byte list" where
  "sextets_to_bytes (p # q # r # s # rest) =
     [of_nat (p * 4 + q div 16), of_nat (q mod 16 * 16 + r div 4), of_nat (r mod 4 * 64 + s)]
     @ sextets_to_bytes rest"
| "sextets_to_bytes [p, q, r] = [of_nat (p * 4 + q div 16), of_nat (q mod 16 * 16 + r div 4)]"
| "sextets_to_bytes [p, q] = [of_nat (p * 4 + q div 16)]"
| "sextets_to_bytes ps = []"

definition ascii_whitespace :: "jschar \<Rightarrow> bool" where
  "ascii_whitespace c = (unat c \<in> {0x09, 0x0A, 0x0C, 0x0D, 0x20})"

text \<open>Where the length is a multiple of 4, one or two \<open>=\<close> at the end are removed.\<close>

definition strip_padding :: "jsstring \<Rightarrow> jsstring" where
  "strip_padding d =
     (if length d mod 4 = 0 then
        (case rev d of
           e1 # e2 # r \<Rightarrow>
             if e1 = 0x3D \<and> e2 = 0x3D then rev r
             else if e1 = 0x3D then rev (e2 # r)
             else d
         | _ \<Rightarrow> d)
      else d)"

text \<open>
  \<open>atob\<close> (the forgiving-base64 decode of the HTML standard): ASCII whitespace is
  removed, then the padding; a length of 1 modulo 4 or a character outside the alphabet
  is an \<open>InvalidCharacterError\<close>. The result has one code unit per byte.
\<close>

definition atob :: "jsstring \<Rightarrow> js_error + jsstring" where
  "atob s =
     (let d = strip_padding (filter (\<lambda>c. \<not> ascii_whitespace c) s) in
      if length d mod 4 = 1 \<or> \<not> list_all (\<lambda>c. b64_value c \<noteq> None) d
      then Inl InvalidCharacterError
      else Inr (map ucast (sextets_to_bytes (map (\<lambda>c. the (b64_value c)) d))))"

text \<open>\<open>btoa\<close>: a code unit above 0xFF is an \<open>InvalidCharacterError\<close>.\<close>

definition btoa :: "jsstring \<Rightarrow> js_error + jsstring" where
  "btoa s =
     (if list_ex (\<lambda>c. 0xFF < unat c) s then Inl InvalidCharacterError
      else Inr (base64_encode (map ucast s)))"

text \<open>\<open>Buffer.from(s, "utf-8")\<close>: an unpaired surrogate is written as U+FFFD.\<close>

definition Buffer_from_utf8 :: "jsstring \<Rightarrow> byte list" where
  "Buffer_from_utf8 s =
     concat (map (\<lambda>cp. if is_surrogate cp then [0xEF, 0xBF, 0xBD] else utf8_encode cp)
               (code_points s))"

text \<open>
  \<open>Buffer.from(s, "base64")\<close> never throws: it stops at the first \<open>=\<close> and passes over
  every character outside the alphabet.
\<close>

definition Buffer_from_base64 :: "jsstring \<Rightarrow> byte list" where
  "Buffer_from_base64 s =
     sextets_to_bytes (List.map_filter b64url_value (takeWhile (\<lambda>c. c \<noteq> 0x3D) s))"

text \<open>\<open>buf.toString("utf-8")\<close> never throws: ill-formed input decodes to U+FFFD.\<close>

definition Buffer_toString_utf8 :: "byte list \<Rightarrow> jsstring" where
  "Buffer_toString_utf8 bs = concat (map utf16_encode (utf8_decode bs))"

definition Buffer_toString_base64 :: "byte list \<Rightarrow> jsstring" where
  "Buffer_toString_base64 bs = base64_encode bs"

subsection \<open>Percent escapes\<close>

definition hex_digit :: "nat \<Rightarrow> jschar" where
  "hex_digit n = (if n < 10 then of_nat (0x30 + n) else of_nat (0x41 + (n - 10)))"

definition hex_value :: "jschar \<Rightarrow> nat option" where
  "hex_value c =
     (let u = unat c in
      if 0x30 \<le> u \<and> u \<le> 0x39 then Some (u - 0x30)
      else if 0x41 \<le> u \<and> u \<le> 0x46 then Some (u - 0x41 + 10)
      else if 0x61 \<le> u \<and> u \<le> 0x66 then Some (u - 0x61 + 10)
      else None)"

definition percent :: "byte \<Rightarrow> jsstring" where
  "percent b = [0x25, hex_digit (unat b div 16), hex_digit (unat b mod 16)]"

fun parse_hex2 :: "jsstring \<Rightarrow> (nat \<times> jsstring) option" where
  "parse_hex2 (a # b # r) =
     (case (hex_value a, hex_value b) of
        (Some x, Some y) \<Rightarrow> Some (x * 16 + y, r)
      | _ \<Rightarrow> None)"
| "parse_hex2 s = None"

fun parse_u4 :: "jsstring \<Rightarrow> (nat \<times> jsstring) option" where
  "parse_u4 (u # s) =
     (if u = 0x75 then
        (case parse_hex2 s of
           Some (x, s') \<Rightarrow>
             (case parse_hex2 s' of Some (y, r) \<Rightarrow> Some (x * 256 + y, r) | None \<Rightarrow> None)
         | None \<Rightarrow> None)
      else None)"
| "parse_u4 [] = None"

text \<open>The characters \<open>encodeURIComponent\<close> leaves as they are: letters, digits and \<open>-_.!~*'()\<close>.\<close>

definition uri_unreserved :: "jschar \<Rightarrow> bool" where
  "uri_unreserved c =
     (let u = unat c in
      (0x41 \<le> u \<and> u \<le> 0x5A) \<or> (0x61 \<le> u \<and> u \<le> 0x7A) \<or> (0x30 \<le> u \<and> u \<le> 0x39)
      \<or> u \<in> {0x2D, 0x5F, 0x2E, 0x21, 0x7E, 0x2A, 0x27, 0x28, 0x29})"

definition uri_encode_cp :: "nat \<Rightarrow> jsstring" where
  "uri_encode_cp cp =
     (if cp < 0x80 \<and> uri_unreserved (of_nat cp) then [of_nat cp]
      else concat (map percent (utf8_encode cp)))"

text \<open>\<open>encodeURIComponent\<close>: an unpaired surrogate is a \<open>URIError\<close>.\<close>

definition encodeURIComponent :: "jsstring \<Rightarrow> js_error + jsstring" where
  "encodeURIComponent s =
     (if list_ex is_surrogate (code_points s) then Inl URIError
      else Inr (concat (map uri_encode_cp (code_points s))))"

text \<open>The characters \<open>escape\<close> leaves as they are: letters, digits and \<open>@*_+-./\<close>.\<close>

definition escape_unescaped :: "jschar \<Rightarrow> bool" where
  "escape_unescaped c =
     (let u = unat c in
      (0x41 \<le> u \<and> u \<le> 0x5A) \<or> (0x61 \<le> u \<and> u \<le> 0x7A) \<or> (0x30 \<le> u \<and> u \<le> 0x39)
      \<or> u \<in> {0x40, 0x2A, 0x5F, 0x2B, 0x2D, 0x2E, 0x2F})"

definition escape_unit :: "jschar \<Rightarrow> jsstring" where
  "escape_unit c =
     (if escape_unescaped c then [c]
      else if unat c < 0x100 then percent (ucast c)
      else [0x25, 0x75, hex_digit (unat c div 0x1000), hex_digit (unat c div 0x100 mod 16),
            hex_digit (unat c div 16 mod 16), hex_digit (unat c mod 16)])"

definition escape :: "jsstring \<Rightarrow> jsstring" where
  "escape s = concat (map escape_unit s)"

lemma parse_hex2_shorter: "parse_hex2 s = Some (v, r) \<Longrightarrow> length r < length s"
  by (induction s rule: parse_hex2.induct) (auto split: option.splits)

lemma parse_u4_shorter: "parse_u4 s = Some (v, r) \<Longrightarrow> length r < length s"
  by (induction s rule: parse_u4.induct)
     (auto split: option.splits if_splits dest!: parse_hex2_shorter)

text \<open>\<open>unescape\<close>: \<open>%uXXXX\<close> and \<open>%XX\<close> are replaced, any other \<open>%\<close> stays.\<close>

function unescape :: "jsstring \<Rightarrow> jsstring" where
  "unescape [] = []"
| "unescape (c # s) =
     (if c = 0x25 then
        (case parse_u4 s of
           Some (v, r) \<Rightarrow> of_nat v # unescape r
         | None \<Rightarrow>
             (case parse_hex2 s of
                Some (v, r) \<Rightarrow> of_nat v # unescape r
              | None \<Rightarrow> c # unescape s))
      else c # unescape s)"
  by pat_completeness auto
termination
  by (relation "measure length") (auto dest: parse_hex2_shorter parse_u4_shorter)

text \<open>The octets that follow the first one of a multi-byte sequence, each written \<open>%XX\<close>.\<close>

fun parse_octets :: "nat \<Rightarrow> jsstring \<Rightarrow> (byte list \<times> jsstring) option" where
  "parse_octets 0 s = Some ([], s)"
| "parse_octets (Suc n) [] = None"
| "parse_octets (Suc n) (c # s) =
     (if c = 0x25 then
        (case parse_hex2 s of
           Some (v, r) \<Rightarrow>
             (case parse_octets n r of
                Some (bs, r') \<Rightarrow> Some (of_nat v # bs, r')
              | None \<Rightarrow> None)
         | None \<Rightarrow> None)
      else None)"

lemma parse_octets_shorter: "parse_octets n s = Some (bs, r) \<Longrightarrow> length r \<le> length s"
  by (induction n s arbitrary: bs r rule: parse_octets.induct)
     (fastforce split: option.splits if_splits dest!: parse_hex2_shorter)+

text \<open>The number of leading 1 bits of an octet (5 stands for five or more).\<close>

definition leading_ones :: "nat \<Rightarrow> nat" where
  "leading_ones b =
     (if b < 0x80 then 0 else if b < 0xC0 then 1 else if b < 0xE0 then 2
      else if b < 0xF0 then 3 else if b < 0xF8 then 4 else 5)"

text \<open>
  \<open>decodeURIComponent\<close>: a \<open>%\<close> not followed by two hexadecimal digits, and octets that
  are not the UTF-8 encoding of a code point, are a \<open>URIError\<close>.
\<close>

function decodeURIComponent :: "jsstring \<Rightarrow> js_error + jsstring" where
  "decodeURIComponent [] = Inr []"
| "decodeURIComponent (c # s) =
     (if c \<noteq> 0x25 then
        (case decodeURIComponent s of Inl e \<Rightarrow> Inl e | Inr r \<Rightarrow> Inr (c # r))
      else
        (case parse_hex2 s of
           None \<Rightarrow> Inl URIError
         | Some (b, s1) \<Rightarrow>
             if leading_ones b = 0 then
               (case decodeURIComponent s1 of Inl e \<Rightarrow> Inl e | Inr r \<Rightarrow> Inr (of_nat b # r))
             else if leading_ones b = 1 \<or> 4 < leading_ones b then Inl URIError
             else
               (case parse_octets (leading_ones b - 1) s1 of
                  None \<Rightarrow> Inl URIError
                | Some (octets, s2) \<Rightarrow>
                    (case utf8_scalar (of_nat b # octets) of
                       None \<Rightarrow> Inl URIError
                     | Some cp \<Rightarrow>
                         (case decodeURIComponent s2 of
                            Inl e \<Rightarrow> Inl e
                          | Inr r \<Rightarrow> Inr (utf16_encode cp @ r))))))"
  by pat_completeness auto
termination
  by (relation "measure length")
     (auto dest!: parse_hex2_shorter parse_octets_shorter)

subsection \<open>MD5 (RFC 1321) and its rendering\<close>

definition md5_T :: "u32 list" where
  "md5_T =
    [0xd76aa478, 0xe8c7b756, 0x242070db, 0xc1bdceee, 0xf57c0faf, 0x4787c62a, 0xa8304613, 0xfd469501,
     0x698098d8, 0x8b44f7af, 0xffff5bb1, 0x895cd7be, 0x6b901122, 0xfd987193, 0xa679438e, 0x49b40821,
     0xf61e2562, 0xc040b340, 0x265e5a51, 0xe9b6c7aa, 0xd62f105d, 0x02441453, 0xd8a1e681, 0xe7d3fbc8,
     0x21e1cde6, 0xc33707d6, 0xf4d50d87, 0x455a14ed, 0xa9e3e905, 0xfcefa3f8, 0x676f02d9, 0x8d2a4c8a,
     0xfffa3942, 0x8771f681, 0x6d9d6122, 0xfde5380c, 0xa4beea44, 0x4bdecfa9, 0xf6bb4b60, 0xbebfbc70,
     0x289b7ec6, 0xeaa127fa, 0xd4ef3085, 0x04881d05, 0xd9d4d039, 0xe6db99e5, 0x1fa27cf8, 0xc4ac5665,
     0xf4292244, 0x432aff97, 0xab9423a7, 0xfc93a039, 0x655b59c3, 0x8f0ccc92, 0xffeff47d, 0x85845dd1,
     0x6fa87e4f, 0xfe2ce6e0, 0xa3014314, 0x4e0811a1, 0xf7537e82, 0xbd3af235, 0x2ad7d2bb, 0xeb86d391]"

definition md5_S :: "nat list" where
  "md5_S =
    [7, 12, 17, 22, 7, 12, 17, 22, 7, 12, 17, 22, 7, 12, 17, 22,
     5, 9, 14, 20, 5, 9, 14, 20, 5, 9, 14, 20, 5, 9, 14, 20,
     4, 11, 16, 23, 4, 11, 16, 23, 4, 11, 16, 23, 4, 11, 16, 23,
     6, 10, 15, 21, 6, 10, 15, 21, 6, 10, 15, 21, 6, 10, 15, 21]"

type_synonym md5_state = "u32 \<times> u32 \<times> u32 \<times> u32"

definition md5_step :: "u32 list \<Rightarrow> nat \<Rightarrow> md5_state \<Rightarrow> md5_state" where
  "md5_step M i st =
     (case st of (a, b, c, d) \<Rightarrow>
        let (f, g) =
              (if i < 16 then ((b AND c) OR (NOT b AND d), i)
               else if i < 32 then ((d AND b) OR (NOT d AND c), (5 * i + 1) mod 16)
               else if i < 48 then (b XOR c XOR d, (3 * i + 5) mod 16)
               else (c XOR (b OR NOT d), (7 * i) mod 16));
            x = f + a + md5_T ! i + M ! g
        in (d, b + word_rotl (md5_S ! i) x, b, c))"

text \<open>Little-endian words.\<close>

definition word_of_bytes :: "byte list \<Rightarrow> u32" where
  "word_of_bytes bs = foldr (\<lambda>b w. ucast b OR push_bit 8 w) bs 0"

definition bytes_of_word :: "u32 \<Rightarrow> byte list" where
  "bytes_of_word w = map (\<lambda>i. ucast (drop_bit (8 * i) w)) [0..<4]"

function chunks :: "nat \<Rightarrow> 'a list \<Rightarrow> 'a list list" where
  "chunks n xs = (if n = 0 \<or> xs = [] then [] else take n xs # chunks n (drop n xs))"
  by pat_completeness auto
termination
  by (relation "measure (\<lambda>(n, xs). length xs)") auto

declare chunks.simps [simp del]

definition md5_block :: "byte list \<Rightarrow> md5_state \<Rightarrow> md5_state" where
  "md5_block block st =
     (case st of (a0, b0, c0, d0) \<Rightarrow>
        case fold (md5_step (map word_of_bytes (chunks 4 block))) [0..<64] st of
          (a, b, c, d) \<Rightarrow> (a0 + a, b0 + b, c0 + c, d0 + d))"

text \<open>A 1 bit, zeros up to 56 modulo 64 bytes, and the length in bits as 64 bits.\<close>

definition md5_pad :: "byte list \<Rightarrow> byte list" where
  "md5_pad bs =
     bs @ [0x80] @ replicate ((119 - length bs mod 64) mod 64) 0
        @ map (\<lambda>i. ucast (drop_bit (8 * i) (of_nat (8 * length bs) :: 64 word))) [0..<8]"

definition MD5 :: "byte list \<Rightarrow> byte list" where
  "MD5 bs =
     (case fold md5_block (chunks 64 (md5_pad bs))
             (0x67452301, 0xefcdab89, 0x98badcfe, 0x10325476) of
        (a, b, c, d) \<Rightarrow> concat (map bytes_of_word [a, b, c, d]))"

text \<open>
  \<open>CryptoJS.MD5\<close> of a string hashes the bytes \<open>CryptoJS.enc.Utf8.parse\<close> makes of it,
  which is \<open>Latin1.parse(unescape(encodeURIComponent(s)))\<close>: the low byte of every code
  unit of that string.
\<close>

definition CryptoJS_MD5 :: "jsstring \<Rightarrow> js_error + byte list" where
  "CryptoJS_MD5 s =
     (case encodeURIComponent s of
        Inl e \<Rightarrow> Inl e
      | Inr u \<Rightarrow> Inr (MD5 (map ucast (unescape u))))"

text \<open>\<open>hash.toString(CryptoJS.enc.Hex)\<close>: two lower-case digits per byte.\<close>

definition hex_lower :: "nat \<Rightarrow> jschar" where
  "hex_lower n = (if n < 10 then of_nat (0x30 + n) else of_nat (0x61 + (n - 10)))"

definition Hex_stringify :: "byte list \<Rightarrow> jsstring" where
  "Hex_stringify bs = concat (map (\<lambda>b. [hex_lower (unat b div 16), hex_lower (unat b mod 16)]) bs)"

text \<open>
  \<open>toUpperCase\<close> on the ASCII range, where it maps \<open>a\<close>..\<open>z\<close> to \<open>A\<close>..\<open>Z\<close>. The
  program applies it to hexadecimal digits only; the case mapping of characters beyond
  ASCII is left out, they stay as they are here.
\<close>

definition toUpperCase :: "jsstring \<Rightarrow> jsstring" where
  "toUpperCase s = map (\<lambda>c. if 0x61 \<le> unat c \<and> unat c \<le> 0x7A then c - 0x20 else c) s"

text \<open>\<open>Math.round\<close>: the nearest integer, a half rounded up.\<close>

definition Math_round :: "number \<Rightarrow> number" where
  "Math_round x = of_int \<lfloor>x + 1 / 2\<rfloor>"

subsection \<open>date-fns: \<open>format(date, "yyyyMMddHHmmss")\<close>\<close>

text \<open>The local-time fields of a \<open>Date\<close>, as its getters return them (\<open>month\<close> from 0).\<close>

record DateTime =
  fullYear :: int
  month :: nat
  date :: nat
  hours :: nat
  minutes :: nat
  seconds :: nat

fun digits :: "nat \<Rightarrow> jsstring" where
  "digits n = (if n < 10 then [of_nat (0x30 + n)] else digits (n div 10) @ [of_nat (0x30 + n mod 10)])"

declare digits.simps [simp del]

text \<open>The decimal digits, padded with zeros on the left up to the target length.\<close>

definition addLeadingZeros :: "nat \<Rightarrow> nat \<Rightarrow> jsstring" where
  "addLeadingZeros n targetLength =
     replicate (targetLength - length (digits n)) 0x30 @ digits n"

text \<open>The token \<open>yyyy\<close> prints the year of the era: \<open>1 - y\<close> for a year \<open>y\<close> not above 0.\<close>

definition format_yyyyMMddHHmmss :: "DateTime \<Rightarrow> jsstring" where
  "format_yyyyMMddHHmmss d =
     addLeadingZeros (nat (if 0 < fullYear d then fullYear d else 1 - fullYear d)) 4
     @ addLeadingZeros (month d + 1) 2
     @ addLeadingZeros (date d) 2
     @ addLeadingZeros (hours d) 2
     @ addLeadingZeros (minutes d) 2
     @ addLeadingZeros (seconds d) 2"

section \<open>Data model (lib/types.ts)\<close>

text \<open>
  The interfaces of the program, field by field. A field name that several interfaces
  share carries a prefix here: \<open>pid\<close>, \<open>pname\<close>, \<open>prequest\<close>, \<open>pupdatedAt\<close> in
  a preset, \<open>gid\<close>, \<open>gname\<close>, \<open>gupdatedAt\<close> in a group, \<open>hid\<close> and
  \<open>hrequest\<close> in a history item, \<open>s_\<close> in its request summary, \<open>x_\<close> in the
  result of an execution and \<open>r_\<close> in a response.
\<close>

record PresetRequest =
  url :: jsstring
  appkey :: jsstring
  password :: jsstring
  ver :: jsstring
  timestamp :: "jsstring option"
  dataRaw :: jsstring
  dataB64 :: "jsstring option"

record PresetItem =
  pid :: jsstring
  pname :: jsstring
  prequest :: PresetRequest
  pupdatedAt :: jsstring

record GroupItem =
  gid :: jsstring
  gname :: jsstring
  presets :: "PresetItem list"
  gupdatedAt :: jsstring

record StorageGroups =
  groups :: "GroupItem list"
  lastUsedGroupId :: "jsstring option"
  lastUsedPresetId :: "jsstring option"

record RequestSummary =
  s_url :: jsstring
  s_appkey :: jsstring
  s_ver :: jsstring
  s_timestamp :: jsstring
  s_sign :: jsstring
  s_dataB64Len :: number

record HistoryItem =
  hid :: jsstring
  ts :: jsstring
  durationMs :: number
  status :: "number option"
  ok :: bool
  requestSummary :: RequestSummary
  hrequest :: "PresetRequest option"
  responseText :: jsstring
  errorMessage :: "jsstring option"

record StorageHistory =
  items :: "HistoryItem list"
  limit :: "number option"

text \<open>lib/request.ts: the options and the result of an execution.\<close>

record RequestOptions =
  request :: PresetRequest
  timeoutMs :: number
  forceTime :: "jsstring option"

record RequestExecution =
  x_responseText :: jsstring
  x_status :: "number option"
  x_ok :: bool
  x_durationMs :: number
  x_timestamp :: jsstring
  x_sign :: jsstring

text \<open>
  A \<open>FormData\<close> object: its entries, in the order of their appending.
  \<open>append(name, value)\<close> takes both arguments as \<open>USVString\<close>, so the entry it adds
  holds their conversions. The entries are what \<open>fetch\<close> is handed as the body; how the
  platform writes them on the wire (boundaries, line breaks) is not part of the model.
\<close>

type_synonym FormData = "(jsstring \<times> jsstring) list"

definition FormData_append :: "FormData \<Rightarrow> jsstring \<Rightarrow> jsstring \<Rightarrow> FormData" where
  "FormData_append form name v = form @ [(toUSVString name, toUSVString v)]"

text \<open>
  What \<open>fetch\<close> and \<open>res.text()\<close> yield: the status, whether it is a 2xx one, the text
  of the body, and the milliseconds \<open>performance.now()\<close> advanced meanwhile.
\<close>

record Response =
  r_status :: number
  r_ok :: bool
  r_text :: jsstring
  r_elapsed :: number

text \<open>lib/base64.ts: \<open>{data}\<close> or \<open>{error}\<close>.\<close>

datatype decoded = Data jsstring | Error jsstring

section \<open>The documents \<open>JSON.stringify\<close> writes\<close>

text \<open>A field whose value is \<open>undefined\<close> is left out of the document.\<close>

definition opt_field :: "string \<Rightarrow> ('a \<Rightarrow> json) \<Rightarrow> 'a option \<Rightarrow> (jsstring \<times> json) list" where
  "opt_field k f v = (case v of None \<Rightarrow> [] | Some x \<Rightarrow> [(js k, f x)])"

definition request_json :: "PresetRequest \<Rightarrow> json" where
  "request_json r = JObj (
     [(js ''url'', JStr (url r)), (js ''appkey'', JStr (appkey r)),
      (js ''password'', JStr (password r)), (js ''ver'', JStr (ver r))]
     @ opt_field ''timestamp'' JStr (timestamp r)
     @ [(js ''dataRaw'', JStr (dataRaw r))]
     @ opt_field ''dataB64'' JStr (dataB64 r))"

definition preset_json :: "PresetItem \<Rightarrow> json" where
  "preset_json p = JObj
     [(js ''id'', JStr (pid p)), (js ''name'', JStr (pname p)),
      (js ''request'', request_json (prequest p)), (js ''updatedAt'', JStr (pupdatedAt p))]"

definition group_json :: "GroupItem \<Rightarrow> json" where
  "group_json g = JObj
     [(js ''id'', JStr (gid g)), (js ''name'', JStr (gname g)),
      (js ''presets'', JArr (map preset_json (presets g))),
      (js ''updatedAt'', JStr (gupdatedAt g))]"

definition groups_json :: "StorageGroups \<Rightarrow> json" where
  "groups_json s = JObj (
     [(js ''groups'', JArr (map group_json (groups s)))]
     @ opt_field ''lastUsedGroupId'' JStr (lastUsedGroupId s)
     @ opt_field ''lastUsedPresetId'' JStr (lastUsedPresetId s))"

definition summary_json :: "RequestSummary \<Rightarrow> json" where
  "summary_json s = JObj
     [(js ''url'', JStr (s_url s)), (js ''appkey'', JStr (s_appkey s)),
      (js ''ver'', JStr (s_ver s)), (js ''timestamp'', JStr (s_timestamp s)),
      (js ''sign'', JStr (s_sign s)), (js ''dataB64Len'', JNum (s_dataB64Len s))]"

definition history_item_json :: "HistoryItem \<Rightarrow> json" where
  "history_item_json h = JObj (
     [(js ''id'', JStr (hid h)), (js ''ts'', JStr (ts h)),
      (js ''durationMs'', JNum (durationMs h)),
      (js ''status'', (case status h of None \<Rightarrow> JNull | Some n \<Rightarrow> JNum n)),
      (js ''ok'', JBool (ok h)),
      (js ''requestSummary'', summary_json (requestSummary h))]
     @ opt_field ''request'' request_json (hrequest h)
     @ [(js ''responseText'', JStr (responseText h))]
     @ opt_field ''errorMessage'' JStr (errorMessage h))"

definition history_json :: "StorageHistory \<Rightarrow> json" where
  "history_json s = JObj (
     [(js ''items'', JArr (map history_item_json (items s)))]
     @ opt_field ''limit'' JNum (limit s))"

section \<open>The world the program runs in\<close>

text \<open>
  \<open>localStorage\<close> is \<open>None\<close> where there is no window or the storage cannot be reached
  (\<open>ensureWindow\<close> returns \<open>undefined\<close>); otherwise it maps a key to the stored document
  (the text \<open>JSON.stringify\<close> produced, kept as the document it denotes). \<open>setItem\<close>
  stores without a quota. \<open>isoNow\<close> is what \<open>new Date().toISOString()\<close> returns during
  the operation and \<open>localNow\<close> the local time \<open>new Date()\<close> reads; \<open>ids\<close> are the
  identifiers \<open>generateId\<close> hands out, \<open>drawn\<close> how many were handed out so far.
  \<open>hasBuffer\<close> says whether \<open>typeof Buffer !== "undefined"\<close>. \<open>messageOf e s\<close> is
  the \<open>message\<close> of the exception \<open>e\<close> that decoding the text \<open>s\<close> raised: the
  texts are the platform's own, they differ between platforms and, on one platform, between
  the causes of one kind of exception. \<open>invoke_md5\<close> is the native command
  \<open>md5_upper_hex\<close> behind \<open>invoke\<close> (its code is not part of the front end): the
  answer of the command, whatever it is, or \<open>Inl\<close> where the promise is rejected, as it
  is outside the native shell. \<open>fetch\<close> is the network: what a POST of a body to a URL
  under a timeout yields, \<open>Inl\<close> where the promise is rejected (a network failure, the
  abort at the timeout). \<open>posted\<close> lists the calls of \<open>fetch\<close> so far, each with its
  URL and body.
\<close>

record world =
  localStorage :: "(jsstring \<rightharpoonup> json) option"
  isoNow :: jsstring
  localNow :: DateTime
  ids :: "nat \<Rightarrow> jsstring"
  drawn :: nat
  hasBuffer :: bool
  messageOf :: "js_error \<Rightarrow> jsstring \<Rightarrow> jsstring"
  invoke_md5 :: "jsstring \<Rightarrow> js_error + jsstring"
  fetch :: "jsstring \<Rightarrow> FormData \<Rightarrow> number \<Rightarrow> js_error + Response"
  posted :: "(jsstring \<times> FormData) list"

text \<open>lib/utils.ts\<close>

definition generateId :: "world \<Rightarrow> jsstring \<times> world" where
  "generateId w = (ids w (drawn w), w\<lparr>drawn := Suc (drawn w)\<rparr>)"

section \<open>Codec (lib/base64.ts)\<close>

text \<open>
  The \<open>try\<close> around the \<open>Buffer\<close> branch of the encoder catches nothing: neither
  \<open>Buffer.from\<close> nor \<open>toString\<close> throws on a string. The fallback is not guarded:
  what \<open>encodeURIComponent\<close> or \<open>btoa\<close> throws leaves the function.
\<close>

definition encodeUtf8ToBase64 :: "world \<Rightarrow> jsstring \<Rightarrow> js_error + jsstring" where
  "encodeUtf8ToBase64 w input =
     (if input = [] then Inr []
      else if hasBuffer w then Inr (Buffer_toString_base64 (Buffer_from_utf8 input))
      else
        (case encodeURIComponent input of
           Inl e \<Rightarrow> Inl e
         | Inr u \<Rightarrow> btoa (unescape u)))"

text \<open>
  The decoder has two branches, each in a \<open>try\<close> whose \<open>catch\<close> returns the message
  of the exception as \<open>{error}\<close>. In the \<open>Buffer\<close> branch that \<open>catch\<close> is never
  entered: neither \<open>Buffer.from\<close> nor \<open>toString\<close> throws on a string. The result of
  the decoder is written as a sum as well, so that not throwing is a statement about it.
\<close>

definition decodeBase64ToUtf8 :: "world \<Rightarrow> jsstring \<Rightarrow> js_error + decoded" where
  "decodeBase64ToUtf8 w input =
     (if input = [] then Inr (Data [])
      else if hasBuffer w then
        Inr (Data (Buffer_toString_utf8 (Buffer_from_base64 input)))
      else
        (case (case atob input of Inl e \<Rightarrow> Inl e | Inr b \<Rightarrow> decodeURIComponent (escape b)) of
           Inl error \<Rightarrow> Inr (Error (messageOf w error input))
         | Inr decoded \<Rightarrow> Inr (Data decoded)))"

section \<open>Signer (lib/sign.ts)\<close>

definition md5UpperHex :: "world \<Rightarrow> jsstring \<Rightarrow> js_error + jsstring" where
  "md5UpperHex w input =
     (if input = [] then Inr []
      else
        (case invoke_md5 w input of
           Inr r \<Rightarrow> Inr r
         | Inl rejected \<Rightarrow>
             (case CryptoJS_MD5 input of
                Inl e \<Rightarrow> Inl e
              | Inr hash \<Rightarrow> Inr (toUpperCase (Hex_stringify hash)))))"

section \<open>Time (lib/time.ts)\<close>

definition getTimestamp :: "DateTime \<Rightarrow> jsstring" where
  "getTimestamp d = format_yyyyMMddHHmmss d"

section \<open>Request executor (lib/request.ts)\<close>

definition executeMultipartRequest ::
  "RequestOptions \<Rightarrow> world \<Rightarrow> (js_error + RequestExecution) \<times> world" where
  "executeMultipartRequest options w =
     (let request = request options;
          timestamp =
            (case forceTime options of
               Some t \<Rightarrow> t
             | None \<Rightarrow>
                 (case timestamp request of
                    Some t \<Rightarrow> t
                  | None \<Rightarrow> getTimestamp (localNow w)));
          dataB64 =
            (case dataB64 request of
               Some d \<Rightarrow> if d \<noteq> [] \<and> 0 < length d then d else []
             | None \<Rightarrow> [])
      in case md5UpperHex w (timestamp @ dataB64 @ password request) of
           Inl e \<Rightarrow> (Inl e, w)
         | Inr sign \<Rightarrow>
             let form = [];
                 form = FormData_append form (js ''appkey'') (appkey request);
                 form = FormData_append form (js ''timestamp'') timestamp;
                 form = FormData_append form (js ''data'') dataB64;
                 form = FormData_append form (js ''sign'') sign;
                 form = FormData_append form (js ''ver'')
                          (if ver request \<noteq> [] then ver request else js ''1'');
                 w' = w\<lparr>posted := posted w @ [(url request, form)]\<rparr>
             in case fetch w (url request) form (timeoutMs options) of
                  Inl e \<Rightarrow> (Inl e, w')
                | Inr res \<Rightarrow>
                    (Inr \<lparr>x_responseText = r_text res,
                          x_status = Some (r_status res),
                          x_ok = r_ok res,
                          x_durationMs = Math_round (r_elapsed res),
                          x_timestamp = timestamp,
                          x_sign = sign\<rparr>,
                     w'))"

section \<open>Persistence store (lib/storage.ts)\<close>

definition GROUPS_KEY :: jsstring where
  "GROUPS_KEY = js ''jk_wms_webapi_groups''"

definition HISTORY_KEY :: jsstring where
  "HISTORY_KEY = js ''jk_wms_webapi_history''"

definition HISTORY_LIMIT :: number where
  "HISTORY_LIMIT = 500"

definition ensureWindow :: "world \<Rightarrow> (jsstring \<rightharpoonup> json) option" where
  "ensureWindow w = localStorage w"

definition writeStorage :: "jsstring \<Rightarrow> json \<Rightarrow> world \<Rightarrow> world" where
  "writeStorage key v w =
     (case ensureWindow w of
        None \<Rightarrow> w
      | Some storage \<Rightarrow> w\<lparr>localStorage := Some (storage(key \<mapsto> v))\<rparr>)"

definition saveGroups :: "StorageGroups \<Rightarrow> world \<Rightarrow> world" where
  "saveGroups data w = writeStorage GROUPS_KEY (groups_json data) w"

definition saveHistory :: "StorageHistory \<Rightarrow> world \<Rightarrow> world" where
  "saveHistory data w = writeStorage HISTORY_KEY (history_json data) w"

definition upsertPreset ::
  "jsstring \<Rightarrow> PresetItem \<Rightarrow> StorageGroups \<Rightarrow> world \<Rightarrow> StorageGroups \<times> world" where
  "upsertPreset groupId preset existing w =
     (let groups' = map (\<lambda>group.
            if gid group \<noteq> groupId then group
            else
              let index = findIndex (\<lambda>p. pid p = pid preset) (presets group);
                  presets' =
                    (if index = - 1 then presets group @ [preset]
                     else map (\<lambda>p. if pid p = pid preset then preset else p) (presets group))
              in group\<lparr>presets := presets', gupdatedAt := isoNow w\<rparr>)
            (groups existing);
          result = existing\<lparr>groups := groups',
                            lastUsedGroupId := Some groupId,
                            lastUsedPresetId := Some (pid preset)\<rparr>
      in (result, saveGroups result w))"

definition createGroup :: "jsstring \<Rightarrow> StorageGroups \<Rightarrow> world \<Rightarrow> StorageGroups \<times> world" where
  "createGroup name existing w =
     (let (newId, w1) = generateId w;
          newGroup = \<lparr>gid = newId, gname = name, presets = [], gupdatedAt = isoNow w1\<rparr>;
          result = \<lparr>groups = groups existing @ [newGroup],
                    lastUsedGroupId = Some (gid newGroup),
                    lastUsedPresetId = None\<rparr>
      in (result, saveGroups result w1))"

definition deleteGroup :: "jsstring \<Rightarrow> StorageGroups \<Rightarrow> world \<Rightarrow> StorageGroups \<times> world" where
  "deleteGroup groupId existing w =
     (let result = existing\<lparr>
            groups := filter (\<lambda>g. gid g \<noteq> groupId) (groups existing),
            lastUsedGroupId :=
              (if lastUsedGroupId existing = Some groupId then None
               else lastUsedGroupId existing),
            lastUsedPresetId :=
              (if (case lastUsedPresetId existing of None \<Rightarrow> False | Some l \<Rightarrow> l \<noteq> [])
                  \<and> list_ex (\<lambda>g. list_ex (\<lambda>p. Some (pid p) = lastUsedPresetId existing) (presets g))
                       (groups existing)
               then lastUsedPresetId existing
               else None)\<rparr>
      in (result, saveGroups result w))"

definition deletePreset ::
  "jsstring \<Rightarrow> jsstring \<Rightarrow> StorageGroups \<Rightarrow> world \<Rightarrow> StorageGroups \<times> world" where
  "deletePreset groupId presetId existing w =
     (let groups' = map (\<lambda>group.
            if gid group \<noteq> groupId then group
            else group\<lparr>presets := filter (\<lambda>p. pid p \<noteq> presetId) (presets group),
                       gupdatedAt := isoNow w\<rparr>)
            (groups existing);
          result = existing\<lparr>
            groups := groups',
            lastUsedPresetId :=
              (if lastUsedPresetId existing = Some presetId then None
               else lastUsedPresetId existing)\<rparr>
      in (result, saveGroups result w))"

definition renameGroup ::
  "jsstring \<Rightarrow> jsstring \<Rightarrow> StorageGroups \<Rightarrow> world \<Rightarrow> StorageGroups \<times> world" where
  "renameGroup groupId name existing w =
     (let groups' = map (\<lambda>group.
            if gid group = groupId then group\<lparr>gname := name, gupdatedAt := isoNow w\<rparr>
            else group)
            (groups existing);
          result = existing\<lparr>groups := groups'\<rparr>
      in (result, saveGroups result w))"

definition clonePreset ::
  "jsstring \<Rightarrow> PresetItem \<Rightarrow> StorageGroups \<Rightarrow> world \<Rightarrow> StorageGroups \<times> world" where
  "clonePreset groupId preset existing w =
     (let (newId, w1) = generateId w;
          clone = preset\<lparr>pid := newId, pname := pname preset @ js '' Copy'',
                         pupdatedAt := isoNow w1\<rparr>;
          groups' = map (\<lambda>group.
            if gid group = groupId
            then group\<lparr>presets := presets group @ [clone], gupdatedAt := isoNow w1\<rparr>
            else group)
            (groups existing);
          result = existing\<lparr>groups := groups'\<rparr>
      in (result, saveGroups result w1))"

definition pushHistory :: "HistoryItem \<Rightarrow> StorageHistory \<Rightarrow> world \<Rightarrow> StorageHistory \<times> world" where
  "pushHistory entry existing w =
     (let limit' = (case limit existing of None \<Rightarrow> HISTORY_LIMIT | Some l \<Rightarrow> l);
          items' = slice 0 limit' (entry # items existing);
          result = existing\<lparr>items := items', limit := Some limit'\<rparr>
      in (result, saveHistory result w))"

text \<open>
  \<open>importAll\<close> receives an unchecked value (the result of \<open>JSON.parse\<close>) and hands its
  two fields to \<open>saveGroups\<close> and \<open>saveHistory\<close> as they are, so what is written are
  the documents of those two fields. The result \<open>None\<close> is \<open>null\<close>.
\<close>

definition importAll :: "json \<Rightarrow> world \<Rightarrow> (json \<times> json) option \<times> world" where
  "importAll data w =
     (if \<not> truthy data \<or> \<not> typeof_object data then (None, w)
      else if falsy (getProp data (js ''groups'')) \<or> falsy (getProp data (js ''history'')) then (None, w)
      else
        (let g = the (getProp data (js ''groups''));
             h = the (getProp data (js ''history''))
         in (Some (g, h), writeStorage HISTORY_KEY h (writeStorage GROUPS_KEY g w))))"

section \<open>Example values\<close>

definition example_request :: PresetRequest where
  "example_request = \<lparr>url = js ''http://localhost/api'', appkey = js ''demo'',
     password = js ''secret'', ver = js ''1'', timestamp = Some (js ''20240115093000''),
     dataRaw = js ''{}'', dataB64 = Some (js ''e30='')\<rparr>"

definition example_preset :: "string \<Rightarrow> string \<Rightarrow> PresetItem" where
  "example_preset i n = \<lparr>pid = js i, pname = js n, prequest = example_request,
     pupdatedAt = js ''2024-01-01T00:00:00.000Z''\<rparr>"

definition example_group :: "string \<Rightarrow> PresetItem list \<Rightarrow> GroupItem" where
  "example_group i ps = \<lparr>gid = js i, gname = js ''Group'', presets = ps,
     gupdatedAt = js ''2024-01-01T00:00:00.000Z''\<rparr>"

text \<open>
  The texts of one platform (V8 and Node's \<open>atob\<close>): \<open>atob\<close> reports a length of 1
  modulo 4 in other words than a character that must not stand where it stands.
\<close>

definition example_message :: "js_error \<Rightarrow> jsstring \<Rightarrow> jsstring" where
  "example_message e s =
     (case e of
        URIError \<Rightarrow> js ''URI malformed''
      | InvalidCharacterError \<Rightarrow>
          if list_all (\<lambda>c. b64_value c \<noteq> None)
               (strip_padding (filter (\<lambda>c. \<not> ascii_whitespace c) s))
          then js ''The string to be decoded is not correctly encoded.''
          else js ''Invalid character''
      | RangeError \<Rightarrow> js ''Invalid time value''
      | Rejected m \<Rightarrow> m)"

definition example_world :: world where
  "example_world = \<lparr>localStorage = Some Map.empty, isoNow = js ''2024-01-15T09:30:00.000Z'',
     localNow = \<lparr>fullYear = 2024, month = 0, date = 15, hours = 9, minutes = 30, seconds = 0\<rparr>,
     ids = (\<lambda>n. js ''id-'' @ replicate (Suc n) (of_char CHR ''x'')), drawn = 0,
     hasBuffer = False,
     messageOf = example_message,
     invoke_md5 = (\<lambda>input. Inl (Rejected (js ''no native runtime''))),
     fetch = (\<lambda>u body t. Inr \<lparr>r_status = 200, r_ok = True, r_text = js ''e30='', r_elapsed = 12\<rparr>),
     posted = []\<rparr>"

definition example_entry :: "string \<Rightarrow> HistoryItem" where
  "example_entry i = \<lparr>hid = js i, ts = js ''2024-01-15T09:30:00.000Z'', durationMs = 12,
     status = Some 200, ok = True,
     requestSummary = \<lparr>s_url = js ''http://localhost/api'', s_appkey = js ''demo'',
       s_ver = js ''1'', s_timestamp = js ''20240115093000'', s_sign = js '''',
       s_dataB64Len = 4\<rparr>,
     hrequest = None, responseText = js ''ok'', errorMessage = None\<rparr>"

definition full_history :: StorageHistory where
  "full_history = \<lparr>items = [example_entry ''h2'', example_entry ''h1''], limit = Some 2\<rparr>"

definition negative_history :: StorageHistory where
  "negative_history = \<lparr>items = [example_entry ''h1''], limit = Some (- 1)\<rparr>"

definition stored_example :: StorageGroups where
  "stored_example = \<lparr>groups = [example_group ''g1'' [example_preset ''p1'' ''first'']],
     lastUsedGroupId = Some (js ''g1''), lastUsedPresetId = Some (js ''p1'')\<rparr>"

definition two_presets :: StorageGroups where
  "two_presets = \<lparr>groups = [example_group ''g1''
       [example_preset ''p1'' ''first'', example_preset ''p2'' ''second'']],
     lastUsedGroupId = None, lastUsedPresetId = None\<rparr>"

definition example_payload :: json where
  "example_payload = JObj
     [(js ''groups'', JObj [(js ''groups'', JArr [])]),
      (js ''history'', JObj [(js ''items'', JArr []), (js ''limit'', JNum 500)])]"

definition null_fields_payload :: json where
  "null_fields_payload = JObj
     [(js ''groups'', JNull),
      (js ''history'', JObj [(js ''items'', JArr []), (js ''limit'', JNum 500)])]"

definition example_options :: RequestOptions where
  "example_options = \<lparr>request = \<lparr>url = js ''http://localhost/api'', appkey = js ''demo'',
        password = js ''secret'', ver = js '''', timestamp = Some (js ''20240115093000''),
        dataRaw = js ''{}'', dataB64 = Some (js ''eyJhIjoxfQ=='')\<rparr>,
     timeoutMs = 1000, forceTime = None\<rparr>"

definition fresh_options :: RequestOptions where
  "fresh_options = \<lparr>request = \<lparr>url = js ''http://localhost/api'', appkey = js ''demo'',
        password = js ''secret'', ver = js ''2'', timestamp = None,
        dataRaw = js ''{}'', dataB64 = Some (js ''eyJhIjoxfQ=='')\<rparr>,
     timeoutMs = 1000, forceTime = None\<rparr>"

definition buffer_world :: world where
  "buffer_world = example_world\<lparr>hasBuffer := True\<rparr>"

definition emoji_text :: jsstring where
  "emoji_text = [0xD83D, 0xDE00, 0x4E2D, 0x61]"

text \<open>A request whose password is one unpaired surrogate.\<close>

definition ill_formed_options :: RequestOptions where
  "ill_formed_options =
     example_options\<lparr>request := (request example_options)\<lparr>password := [0xD800]\<rparr>\<rparr>"

text \<open>A request without timestamp whose \<open>ver\<close> is one unpaired surrogate.\<close>

definition surrogate_ver_options :: RequestOptions where
  "surrogate_ver_options =
     fresh_options\<lparr>request := (request fresh_options)\<lparr>ver := [0xD800]\<rparr>\<rparr>"

text \<open>A world whose clock reads the year 12345.\<close>

definition late_world :: world where
  "late_world = example_world\<lparr>localNow := (localNow example_world)\<lparr>fullYear := 12345\<rparr>\<rparr>"

section \<open>Properties the claims speak of\<close>

text \<open>The references of the root aggregate, when present, name entities that exist.\<close>

definition refs_ok :: "StorageGroups \<Rightarrow> bool" where
  "refs_ok s =
     ((case lastUsedGroupId s of None \<Rightarrow> True | Some g \<Rightarrow> g \<in> set (map gid (groups s)))
    \<and> (case lastUsedPresetId s of None \<Rightarrow> True
        | Some p \<Rightarrow> list_ex (\<lambda>g. p \<in> set (map pid (presets g))) (groups s)))"

text \<open>Each position holds the new preset where the old one had its id, else the old one.\<close>

definition replaced_in_place :: "PresetItem \<Rightarrow> PresetItem list \<Rightarrow> PresetItem list \<Rightarrow> bool" where
  "replaced_in_place preset old new =
     (length new = length old
      \<and> (\<forall>j<length old. new ! j = (if pid (old ! j) = pid preset then preset else old ! j)))"

text \<open>What \<open>upsertPreset\<close> is to make of one group.\<close>

definition upserted_group :: "jsstring \<Rightarrow> PresetItem \<Rightarrow> GroupItem \<Rightarrow> GroupItem \<Rightarrow> bool" where
  "upserted_group groupId preset old new =
     (if gid old \<noteq> groupId then new = old
      else gid new = gid old \<and> gname new = gname old
         \<and> (if pid preset \<in> set (map pid (presets old))
             then replaced_in_place preset (presets old) (presets new)
             else presets new = presets old @ [preset]))"

text \<open>A string is well formed when no surrogate stands unpaired: it has a UTF-8 encoding.\<close>

definition well_formed :: "jsstring \<Rightarrow> bool" where
  "well_formed s = (\<not> list_ex is_surrogate (code_points s))"

text \<open>The UTF-8 bytes of a well-formed string.\<close>

definition utf8_bytes :: "jsstring \<Rightarrow> byte list" where
  "utf8_bytes s = concat (map utf8_encode (code_points s))"

text \<open>A byte sequence in upper-case hexadecimal, two digits per byte.\<close>

definition hex_upper :: "byte list \<Rightarrow> jsstring" where
  "hex_upper bs = concat (map (\<lambda>b. [hex_digit (unat b div 16), hex_digit (unat b mod 16)]) bs)"


text \<open>The signature algorithm: the MD5 digest of the UTF-8 bytes, in upper-case hexadecimal.\<close>

definition md5_hex :: "jsstring \<Rightarrow> jsstring" where
  "md5_hex s = hex_upper (MD5 (utf8_bytes s))"


text \<open>
  The effective timestamp: the forced one when supplied, else the one of the request when
  present, else a freshly generated one.
\<close>

definition effective_timestamp :: "RequestOptions \<Rightarrow> world \<Rightarrow> jsstring" where
  "effective_timestamp options w =
     (if forceTime options \<noteq> None then the (forceTime options)
      else if timestamp (request options) \<noteq> None then the (timestamp (request options))
      else getTimestamp (localNow w))"

text \<open>The effective payload: \<open>dataB64\<close> when present and not empty, else the empty string.\<close>

definition effective_payload :: "PresetRequest \<Rightarrow> jsstring" where
  "effective_payload r =
     (if dataB64 r \<noteq> None \<and> the (dataB64 r) \<noteq> [] then the (dataB64 r) else [])"

text \<open>
  The five fields of the multipart body, in order, each value as a \<open>USVString\<close>;
  \<open>ver\<close> is \<open>"1"\<close> when the request has none.
\<close>

definition form_fields :: "PresetRequest \<Rightarrow> jsstring \<Rightarrow> jsstring \<Rightarrow> jsstring \<Rightarrow> FormData" where
  "form_fields r stamp d sign =
     [(js ''appkey'', toUSVString (appkey r)), (js ''timestamp'', toUSVString stamp),
      (js ''data'', toUSVString d), (js ''sign'', toUSVString sign),
      (js ''ver'', toUSVString (if ver r = [] then js ''1'' else ver r))]"

text \<open>The number a string of decimal digits denotes.\<close>

definition decimal :: "jsstring \<Rightarrow> nat" where
  "decimal s = foldl (\<lambda>n c. 10 * n + (unat c - 0x30)) 0 s"

text \<open>
  The number the fourteen digits \<open>yyyyMMddHHmmss\<close> of an instant denote: four digits of
  the year, two of the month counted from 1, two each of day, hour, minute and second.
\<close>

definition stamp_number :: "DateTime \<Rightarrow> nat" where
  "stamp_number d =
     nat (fullYear d) * 10000000000 + (month d + 1) * 100000000 + date d * 1000000
     + hours d * 10000 + minutes d * 100 + seconds d"

definition is_digit :: "jschar \<Rightarrow> bool" where
  "is_digit c = (0x30 \<le> unat c \<and> unat c \<le> 0x39)"

text \<open>A clock in the years 1 to 9999, whose other fields are those of a date.\<close>

definition clock_ok :: "DateTime \<Rightarrow> bool" where
  "clock_ok d =
     (0 < fullYear d \<and> fullYear d < 10000 \<and> month d < 12 \<and> 1 \<le> date d \<and> date d \<le> 31
      \<and> hours d < 24 \<and> minutes d < 60 \<and> seconds d < 60)"

text \<open>A Unicode scalar value: a code point that is not a surrogate.\<close>

definition scalar :: "nat \<Rightarrow> bool" where
  "scalar cp = (cp < 0x110000 \<and> \<not> is_surrogate cp)"

text \<open>
  Well-formed padding: the \<open>=\<close> characters are the last one or two, and stand only where
  the length is a multiple of 4.
\<close>

definition pad_ok :: "jsstring \<Rightarrow> bool" where
  "pad_ok d =
     (let p = dropWhile (\<lambda>c. c \<noteq> 0x3D) d
      in p = [] \<or> ((p = [0x3D] \<or> p = [0x3D, 0x3D]) \<and> length d mod 4 = 0))"

text \<open>
  Text that is not Base64: with ASCII whitespace removed, it has a character that is
  neither of the alphabet nor \<open>=\<close>, or its padding is not well formed, or its length is
  1 modulo 4.
\<close>

definition malformed_base64 :: "jsstring \<Rightarrow> bool" where
  "malformed_base64 s =
     (let d = filter (\<lambda>c. \<not> ascii_whitespace c) s
      in list_ex (\<lambda>c. b64_value c = None \<and> c \<noteq> 0x3D) d \<or> \<not> pad_ok d \<or> length d mod 4 = 1)"

text \<open>
  The sextets of a byte sequence and its padding: \<open>base64_encode\<close> is the one
  followed by the other.
\<close>

fun sextets :: "byte list \<Rightarrow> nat list" where
  "sextets [] = []"
| "sextets [a] = [unat a div 4, unat a mod 4 * 16]"
| "sextets [a, b] = [unat a div 4, unat a mod 4 * 16 + unat b div 16, unat b mod 16 * 4]"
| "sextets (a # b # c # r) =
     [unat a div 4, unat a mod 4 * 16 + unat b div 16, unat b mod 16 * 4 + unat c div 64,
      unat c mod 64] @ sextets r"

fun padding :: "byte list \<Rightarrow> jsstring" where
  "padding [] = []"
| "padding [a] = [0x3D, 0x3D]"
| "padding [a, b] = [0x3D]"
| "padding (a # b # c # r) = padding r"

section \<open>The persistence store: proofs\<close>

lemma toInteger_nonneg: "0 \<le> r \<Longrightarrow> toInteger r = \<lfloor>r\<rfloor>"
  by (simp add: toInteger_def)

lemma slice_take: "0 \<le> r \<Longrightarrow> slice 0 r xs = take (nat \<lfloor>r\<rfloor>) xs"
  by (auto simp add: slice_def toInteger_def Let_def min_def)

text \<open>
  C3 (as amended). For every history whose limit is absent (then 500) or not negative,
  \<open>pushHistory\<close> returns the entry followed by the old items, cut to the first
  \<open>\<lfloor>limit\<rfloor>\<close> of them, and records the limit; so the number of items is at most the
  limit. Pushing into a history that holds exactly limit items drops exactly the last
  (oldest) element and keeps the length.
\<close>

theorem pushHistory_bounded:
  assumes "cap = (case limit h of None \<Rightarrow> HISTORY_LIMIT | Some l \<Rightarrow> l)" and "0 \<le> cap"
  shows "items (fst (pushHistory e h w)) = take (nat \<lfloor>cap\<rfloor>) (e # items h)
       \<and> of_nat (length (items (fst (pushHistory e h w)))) \<le> cap
       \<and> limit (fst (pushHistory e h w)) = Some cap
       \<and> (of_nat (length (items h)) = cap \<longrightarrow>
            items (fst (pushHistory e h w)) = butlast (e # items h)
          \<and> length (items (fst (pushHistory e h w))) = length (items h))"
proof -
  have it: "items (fst (pushHistory e h w)) = take (nat \<lfloor>cap\<rfloor>) (e # items h)"
    using assms by (simp add: pushHistory_def Let_def slice_take)
  have "length (take (nat \<lfloor>cap\<rfloor>) (e # items h)) \<le> nat \<lfloor>cap\<rfloor>"
    by simp
  then have "(of_nat (length (take (nat \<lfloor>cap\<rfloor>) (e # items h))) :: rat) \<le> of_nat (nat \<lfloor>cap\<rfloor>)"
    by (rule of_nat_mono)
  also have "\<dots> = of_int \<lfloor>cap\<rfloor>"
    using assms(2) by simp
  also have "\<dots> \<le> cap" by simp
  finally have len: "of_nat (length (items (fst (pushHistory e h w)))) \<le> cap"
    using it by simp
  have lm: "limit (fst (pushHistory e h w)) = Some cap"
    using assms by (simp add: pushHistory_def Let_def)
  have ev: "items (fst (pushHistory e h w)) = butlast (e # items h)
          \<and> length (items (fst (pushHistory e h w))) = length (items h)"
    if "of_nat (length (items h)) = cap"
  proof -
    have "nat \<lfloor>cap\<rfloor> = length (items h)" using that by auto
    then show ?thesis using it by (simp add: butlast_conv_take)
  qed
  from it len lm ev show ?thesis by blast
qed

text \<open>The amended C3 at a full history of limit 2.\<close>

theorem pushHistory_bounded_witness:
  "items (fst (pushHistory (example_entry ''h3'') full_history example_world))
     = [example_entry ''h3'', example_entry ''h2'']
   \<and> limit (fst (pushHistory (example_entry ''h3'') full_history example_world)) = Some 2"
  using pushHistory_bounded [of 2 full_history "example_entry ''h3''" example_world]
  by (simp add: full_history_def)

text \<open>
  C3 as stated fails at a negative limit: \<open>slice(0, -1)\<close> drops the last element only,
  so one item remains under the limit -1.
\<close>

theorem pushHistory_negative_limit:
  "items (fst (pushHistory (example_entry ''h2'') negative_history example_world))
     = [example_entry ''h2'']
   \<and> \<not> of_nat (length (items (fst (pushHistory (example_entry ''h2'') negative_history example_world))))
        \<le> (case limit negative_history of None \<Rightarrow> HISTORY_LIMIT | Some l \<Rightarrow> l)"
  by (simp add: pushHistory_def negative_history_def slice_def toInteger_def Let_def)

lemma findIndex_nonneg: "- 1 \<le> findIndex P xs"
  by (induction xs) (auto simp add: Let_def)

lemma findIndex_none: "(findIndex P xs = - 1) = (\<not> list_ex P xs)"
proof (induction xs)
  case Nil
  show ?case by simp
next
  case (Cons x xs)
  have "findIndex P xs + 1 \<noteq> - 1"
    using findIndex_nonneg [of P xs] by arith
  with Cons show ?case by (simp add: Let_def)
qed

lemma deleteGroup_result:
  "groups (fst (deleteGroup groupId s w)) = filter (\<lambda>g. gid g \<noteq> groupId) (groups s)
   \<and> lastUsedGroupId (fst (deleteGroup groupId s w))
       = (if lastUsedGroupId s = Some groupId then None else lastUsedGroupId s)"
  by (simp add: deleteGroup_def Let_def)

text \<open>
  Under the invariant, \<open>deleteGroup\<close> keeps a non-empty \<open>lastUsedPresetId\<close> whatever
  group is deleted: the preset is always found in the list before the deletion.
\<close>

lemma deleteGroup_keeps_preset_ref:
  assumes "refs_ok s" and "lastUsedPresetId s = Some p" and "p \<noteq> []"
  shows "lastUsedPresetId (fst (deleteGroup g s w)) = Some p"
proof -
  from assms(1,2) have "list_ex (\<lambda>g. p \<in> set (map pid (presets g))) (groups s)"
    by (simp add: refs_ok_def)
  then have "list_ex (\<lambda>g. list_ex (\<lambda>q. Some (pid q) = Some p) (presets g)) (groups s)"
    by (auto simp add: list_ex_iff)
  with assms(2,3) show ?thesis
    by (simp add: deleteGroup_def Let_def)
qed

text \<open>
  C4. Deleting the group that holds the last used preset empties the list and clears
  \<open>lastUsedGroupId\<close>, yet \<open>lastUsedPresetId\<close> still names the deleted preset: the
  retention test scans \<open>existing.groups\<close>, the list before the deletion.
\<close>

theorem deleteGroup_keeps_dangling_preset:
  "fst (deleteGroup (js ''g1'') stored_example example_world)
     = \<lparr>groups = [], lastUsedGroupId = None, lastUsedPresetId = Some (js ''p1'')\<rparr>"
  by (simp add: deleteGroup_def stored_example_def example_group_def example_preset_def js_def
      Let_def)

text \<open>
  C5 as stated fails: \<open>upsertPreset\<close> with a group id that no group has leaves the
  groups as they are and points both references at entities that do not exist.
\<close>

theorem upsertPreset_unknown_group:
  "refs_ok stored_example
   \<and> \<not> refs_ok (fst (upsertPreset (js ''g9'') (example_preset ''p2'' ''second'') stored_example example_world))"
  by (simp add: refs_ok_def upsertPreset_def stored_example_def example_group_def
      example_preset_def js_def Let_def)

lemma refs_ok_createGroup: "refs_ok (fst (createGroup name s w))"
  by (simp add: refs_ok_def createGroup_def generateId_def Let_def)

lemma refs_ok_map:
  assumes ok: "refs_ok s"
    and gs: "groups s' = map f (groups s)"
    and ids: "\<And>g. gid (f g) = gid g"
    and keep: "\<And>g p. lastUsedPresetId s' = Some p \<Longrightarrow> p \<in> set (map pid (presets g))
                 \<Longrightarrow> p \<in> set (map pid (presets (f g)))"
    and lg: "lastUsedGroupId s' = lastUsedGroupId s"
    and lp: "lastUsedPresetId s' = None \<or> lastUsedPresetId s' = lastUsedPresetId s"
  shows "refs_ok s'"
proof -
  have m: "map gid (groups s') = map gid (groups s)"
    by (simp add: gs ids)
  have g: "case lastUsedGroupId s' of None \<Rightarrow> True | Some g \<Rightarrow> g \<in> set (map gid (groups s'))"
    using ok unfolding refs_ok_def m lg by simp
  have p: "list_ex (\<lambda>g. p \<in> set (map pid (presets g))) (groups s')"
    if "lastUsedPresetId s' = Some p" for p
  proof -
    from that lp have "lastUsedPresetId s = Some p" by auto
    with ok obtain g0 where g0: "g0 \<in> set (groups s)" "p \<in> set (map pid (presets g0))"
      unfolding refs_ok_def list_ex_iff by auto
    from keep [OF that g0(2)] g0(1) show ?thesis
      unfolding list_ex_iff gs by auto
  qed
  from g p show ?thesis
    unfolding refs_ok_def by (auto split: option.splits)
qed

lemma refs_ok_renameGroup: "refs_ok s \<Longrightarrow> refs_ok (fst (renameGroup g name s w))"
  by (erule refs_ok_map [where f = "\<lambda>group. if gid group = g
        then group\<lparr>gname := name, gupdatedAt := isoNow w\<rparr> else group"])
     (simp_all add: renameGroup_def Let_def)

lemma refs_ok_deletePreset: "refs_ok s \<Longrightarrow> refs_ok (fst (deletePreset g p s w))"
  by (erule refs_ok_map [where f = "\<lambda>group. if gid group \<noteq> g then group
        else group\<lparr>presets := filter (\<lambda>q. pid q \<noteq> p) (presets group),
                   gupdatedAt := isoNow w\<rparr>"])
     (auto simp add: deletePreset_def Let_def split: if_splits)

lemma refs_ok_clonePreset: "refs_ok s \<Longrightarrow> refs_ok (fst (clonePreset g preset s w))"
  by (erule refs_ok_map [where f = "\<lambda>group. if gid group = g
        then group\<lparr>presets := presets group @
               [preset\<lparr>pid := fst (generateId w), pname := pname preset @ js '' Copy'',
                       pupdatedAt := isoNow (snd (generateId w))\<rparr>],
             gupdatedAt := isoNow (snd (generateId w))\<rparr>
        else group"])
     (auto simp add: clonePreset_def Let_def split_beta)

lemma upsertPreset_groups:
  "groups (fst (upsertPreset groupId preset s w)) =
     map (\<lambda>group. if gid group \<noteq> groupId then group
          else group\<lparr>presets :=
                 (if list_ex (\<lambda>p. pid p = pid preset) (presets group)
                  then map (\<lambda>p. if pid p = pid preset then preset else p) (presets group)
                  else presets group @ [preset]),
               gupdatedAt := isoNow w\<rparr>) (groups s)"
  by (simp add: upsertPreset_def Let_def findIndex_none cong: if_cong)

lemma upsertPreset_last:
  "lastUsedGroupId (fst (upsertPreset groupId preset s w)) = Some groupId
   \<and> lastUsedPresetId (fst (upsertPreset groupId preset s w)) = Some (pid preset)"
  by (simp add: upsertPreset_def Let_def)

lemma refs_ok_upsertPreset:
  assumes "g \<in> set (map gid (groups s))"
  shows "refs_ok (fst (upsertPreset g preset s w))"
proof -
  from assms obtain g0 where g0: "g0 \<in> set (groups s)" "gid g0 = g" by auto
  let ?f = "\<lambda>group. if gid group \<noteq> g then group
          else group\<lparr>presets :=
                 (if list_ex (\<lambda>p. pid p = pid preset) (presets group)
                  then map (\<lambda>p. if pid p = pid preset then preset else p) (presets group)
                  else presets group @ [preset]),
               gupdatedAt := isoNow w\<rparr>"
  have "pid preset \<in> set (map pid (presets (?f g0)))"
    using g0(2) by (auto simp add: list_ex_iff image_iff)
  moreover have "gid (?f g0) = g" using g0(2) by simp
  moreover have "?f g0 \<in> set (groups (fst (upsertPreset g preset s w)))"
    unfolding upsertPreset_groups using g0(1) by (simp only: set_map) (rule imageI)
  ultimately obtain h where h: "h \<in> set (groups (fst (upsertPreset g preset s w)))"
    "gid h = g" "pid preset \<in> set (map pid (presets h))"
    by blast
  have 1: "g \<in> set (map gid (groups (fst (upsertPreset g preset s w))))"
    using h(1,2) by force
  have 2: "list_ex (\<lambda>x. pid preset \<in> set (map pid (presets x)))
             (groups (fst (upsertPreset g preset s w)))"
    unfolding list_ex_iff using h(1,3) by blast
  show ?thesis
    unfolding refs_ok_def using 1 2 upsertPreset_last [of g preset s w] by simp
qed

text \<open>
  C5 (as amended). \<open>createGroup\<close>, \<open>renameGroup\<close>, \<open>deletePreset\<close> and
  \<open>clonePreset\<close> preserve the invariant that \<open>lastUsedGroupId\<close> and
  \<open>lastUsedPresetId\<close>, when present, name an existing group and an existing preset;
  \<open>upsertPreset\<close> establishes it whenever its group id is the id of an existing group;
  after \<open>deleteGroup\<close> the reference \<open>lastUsedGroupId\<close>, when present, names an
  existing group.
\<close>

theorem store_ops_keep_refs:
  assumes "refs_ok s"
  shows "refs_ok (fst (createGroup name s w))
       \<and> refs_ok (fst (renameGroup g name s w))
       \<and> refs_ok (fst (deletePreset g p s w))
       \<and> refs_ok (fst (clonePreset g preset s w))
       \<and> (g \<in> set (map gid (groups s)) \<longrightarrow> refs_ok (fst (upsertPreset g preset s w)))
       \<and> (case lastUsedGroupId (fst (deleteGroup g s w)) of None \<Rightarrow> True
          | Some x \<Rightarrow> x \<in> set (map gid (groups (fst (deleteGroup g s w)))))"
proof -
  have "case lastUsedGroupId (fst (deleteGroup g s w)) of None \<Rightarrow> True
          | Some x \<Rightarrow> x \<in> set (map gid (groups (fst (deleteGroup g s w))))"
    using assms unfolding refs_ok_def
    by (auto simp add: deleteGroup_result split: option.splits)
  then show ?thesis
    using assms refs_ok_createGroup refs_ok_renameGroup refs_ok_deletePreset
      refs_ok_clonePreset refs_ok_upsertPreset by blast
qed

text \<open>The amended C5 at a store of one group with one preset.\<close>

theorem store_ops_keep_refs_witness:
  "refs_ok stored_example
   \<and> refs_ok (fst (createGroup (js ''New'') stored_example example_world))
   \<and> refs_ok (fst (renameGroup (js ''g1'') (js ''New'') stored_example example_world))
   \<and> refs_ok (fst (deletePreset (js ''g1'') (js ''p1'') stored_example example_world))
   \<and> refs_ok (fst (clonePreset (js ''g1'') (example_preset ''p1'' ''first'') stored_example example_world))
   \<and> js ''g1'' \<in> set (map gid (groups stored_example))
   \<and> refs_ok (fst (upsertPreset (js ''g1'') (example_preset ''p1'' ''first'') stored_example example_world))"
proof -
  have h: "refs_ok stored_example"
    by (simp add: refs_ok_def stored_example_def example_group_def example_preset_def)
  have g: "js ''g1'' \<in> set (map gid (groups stored_example))"
    by (simp add: stored_example_def example_group_def)
  from store_ops_keep_refs [OF h, of "js ''New''" example_world "js ''g1''" "js ''p1''"
      "example_preset ''p1'' ''first''"] h g
  show ?thesis by blast
qed

lemma map_replace_distinct:
  assumes "distinct (map f xs)" and "j < length xs" and "f (xs ! j) = k"
  shows "map (\<lambda>p. if f p = k then v else p) xs = xs[j := v]"
proof (rule nth_equalityI)
  show "length (map (\<lambda>p. if f p = k then v else p) xs) = length (xs[j := v])" by simp
next
  fix i assume "i < length (map (\<lambda>p. if f p = k then v else p) xs)"
  then have i: "i < length xs" by simp
  show "map (\<lambda>p. if f p = k then v else p) xs ! i = xs[j := v] ! i"
  proof (cases "i = j")
    case True
    with assms i show ?thesis by simp
  next
    case False
    have "map f xs ! i \<noteq> map f xs ! j"
      using nth_eq_iff_index_eq [of "map f xs" i j] assms(1,2) i False by simp
    then have "f (xs ! i) \<noteq> k" using assms(2,3) i by simp
    with i False show ?thesis by simp
  qed
qed

lemma list_ex_pid: "list_ex (\<lambda>p. pid p = k) ps = (k \<in> set (map pid ps))"
  by (force simp add: list_ex_iff)

text \<open>
  C6. Where some group has the target id, \<open>upsertPreset\<close> sets both references to the
  written entity and keeps the number and order of the groups; a group with another id is
  unchanged; in a group with the target id, if a preset with the id of the new preset
  exists, the presets keep their length and every position holds what it held, but for
  the positions of that id, which hold the new preset (with distinct ids: the list
  updated at that one index); otherwise the new preset is appended at the end.
\<close>

theorem upsertPreset_replace_or_append:
  assumes "groupId \<in> set (map gid (groups existing))"
  shows "lastUsedGroupId (fst (upsertPreset groupId preset existing w)) = Some groupId
    \<and> lastUsedPresetId (fst (upsertPreset groupId preset existing w)) = Some (pid preset)
    \<and> length (groups (fst (upsertPreset groupId preset existing w))) = length (groups existing)
    \<and> (\<forall>i<length (groups existing).
         upserted_group groupId preset (groups existing ! i)
           (groups (fst (upsertPreset groupId preset existing w)) ! i))
    \<and> (\<forall>i<length (groups existing). \<forall>j<length (presets (groups existing ! i)).
         gid (groups existing ! i) = groupId
         \<and> distinct (map pid (presets (groups existing ! i)))
         \<and> pid (presets (groups existing ! i) ! j) = pid preset
         \<longrightarrow> presets (groups (fst (upsertPreset groupId preset existing w)) ! i)
               = (presets (groups existing ! i))[j := preset])"
proof -
  let ?r = "fst (upsertPreset groupId preset existing w)"
  have len: "length (groups ?r) = length (groups existing)"
    by (simp add: upsertPreset_groups)
  have each: "upserted_group groupId preset (groups existing ! i) (groups ?r ! i)"
    if "i < length (groups existing)" for i
    using that
    by (simp add: upsertPreset_groups upserted_group_def replaced_in_place_def list_ex_pid)
  have upd: "presets (groups ?r ! i) = (presets (groups existing ! i))[j := preset]"
    if "i < length (groups existing)" "j < length (presets (groups existing ! i))"
      "gid (groups existing ! i) = groupId" "distinct (map pid (presets (groups existing ! i)))"
      "pid (presets (groups existing ! i) ! j) = pid preset" for i j
  proof -
    have "pid preset \<in> set (map pid (presets (groups existing ! i)))"
      using that(2,5) by (metis length_map nth_map nth_mem)
    then show ?thesis
      using that by (simp add: upsertPreset_groups list_ex_pid map_replace_distinct)
  qed
  from len each upd upsertPreset_last [of groupId preset existing w] show ?thesis by blast
qed

text \<open>C6 at a group of two presets, replacing the second.\<close>

theorem upsertPreset_replace_or_append_witness:
  "js ''g1'' \<in> set (map gid (groups two_presets))
   \<and> lastUsedGroupId (fst (upsertPreset (js ''g1'') (example_preset ''p2'' ''renamed'') two_presets example_world))
       = Some (js ''g1'')
   \<and> upserted_group (js ''g1'') (example_preset ''p2'' ''renamed'') (groups two_presets ! 0)
       (groups (fst (upsertPreset (js ''g1'') (example_preset ''p2'' ''renamed'') two_presets example_world)) ! 0)
   \<and> presets (groups (fst (upsertPreset (js ''g1'') (example_preset ''p2'' ''renamed'') two_presets example_world)) ! 0)
       = [example_preset ''p1'' ''first'', example_preset ''p2'' ''renamed'']"
proof -
  have g: "js ''g1'' \<in> set (map gid (groups two_presets))"
    by (simp add: two_presets_def example_group_def)
  note t = upsertPreset_replace_or_append [OF g, of "example_preset ''p2'' ''renamed''" example_world]
  have l: "0 < length (groups two_presets)" by (simp add: two_presets_def)
  have j: "1 < length (presets (groups two_presets ! 0))"
    by (simp add: two_presets_def example_group_def)
  have d: "gid (groups two_presets ! 0) = js ''g1''
         \<and> distinct (map pid (presets (groups two_presets ! 0)))
         \<and> pid (presets (groups two_presets ! 0) ! 1) = pid (example_preset ''p2'' ''renamed'')"
    by (simp add: two_presets_def example_group_def example_preset_def js_def)
  from t l have u: "upserted_group (js ''g1'') (example_preset ''p2'' ''renamed'') (groups two_presets ! 0)
       (groups (fst (upsertPreset (js ''g1'') (example_preset ''p2'' ''renamed'') two_presets example_world)) ! 0)"
    by blast
  from t l j d have "presets (groups (fst (upsertPreset (js ''g1'') (example_preset ''p2'' ''renamed'') two_presets example_world)) ! 0)
       = (presets (groups two_presets ! 0))[1 := example_preset ''p2'' ''renamed'']"
    by blast
  then have p: "presets (groups (fst (upsertPreset (js ''g1'') (example_preset ''p2'' ''renamed'') two_presets example_world)) ! 0)
       = [example_preset ''p1'' ''first'', example_preset ''p2'' ''renamed'']"
    by (simp add: two_presets_def example_group_def)
  from t g u p show ?thesis by blast
qed

text \<open>
  C7 (as amended). \<open>importAll\<close> accepts exactly the objects whose \<open>groups\<close> and
  \<open>history\<close> fields are both present with truthy values: it then returns the two
  fields and, where the storage can be reached, stores both under their keys. On every
  other payload it returns \<open>null\<close> and leaves the world, the storage included, as it was.
\<close>

theorem importAll_truthy_fields:
  "importAll data w =
     (case data of
        JObj fs \<Rightarrow>
          (case (map_of fs (js ''groups''), map_of fs (js ''history'')) of
             (Some g, Some h) \<Rightarrow>
               if truthy g \<and> truthy h
               then (Some (g, h),
                     case localStorage w of
                       None \<Rightarrow> w
                     | Some st \<Rightarrow> w\<lparr>localStorage := Some (st(GROUPS_KEY \<mapsto> g, HISTORY_KEY \<mapsto> h))\<rparr>)
               else (None, w)
           | _ \<Rightarrow> (None, w))
      | _ \<Rightarrow> (None, w))"
  by (cases data)
     (auto simp add: importAll_def writeStorage_def ensureWindow_def Let_def
        split: option.splits)

lemma example_world_storage: "localStorage example_world = Some Map.empty"
  by (simp add: example_world_def)

text \<open>The amended C7 at a well-shaped payload, at \<open>null\<close> and at \<open>{}\<close>.\<close>

theorem importAll_truthy_fields_witness:
  "fst (importAll example_payload example_world)
     = Some (JObj [(js ''groups'', JArr [])],
             JObj [(js ''items'', JArr []), (js ''limit'', JNum 500)])
   \<and> the (localStorage (snd (importAll example_payload example_world))) GROUPS_KEY
       = Some (JObj [(js ''groups'', JArr [])])
   \<and> the (localStorage (snd (importAll example_payload example_world))) HISTORY_KEY
       = Some (JObj [(js ''items'', JArr []), (js ''limit'', JNum 500)])
   \<and> importAll JNull example_world = (None, example_world)
   \<and> importAll (JObj []) example_world = (None, example_world)"
  using importAll_truthy_fields [of example_payload example_world]
    importAll_truthy_fields [of JNull example_world]
    importAll_truthy_fields [of "JObj []" example_world]
  by (simp add: example_payload_def example_world_storage js_def GROUPS_KEY_def HISTORY_KEY_def)

text \<open>
  C7 as stated fails at an object that has both fields, one of them \<open>null\<close>: nothing is
  returned and nothing is written.
\<close>

theorem importAll_null_field:
  "getProp null_fields_payload (js ''groups'') = Some JNull
   \<and> getProp null_fields_payload (js ''history'')
       = Some (JObj [(js ''items'', JArr []), (js ''limit'', JNum 500)])
   \<and> importAll null_fields_payload example_world = (None, example_world)"
  by (simp add: importAll_def null_fields_payload_def js_def)

section \<open>Signer and request executor: proofs\<close>

lemma unat_byte_lt: "unat (b :: byte) < 256"
  using unsigned_less [of b, where 'a = nat] by simp

lemma unat_jschar_lt: "unat (c :: jschar) < 65536"
  using unsigned_less [of c, where 'a = nat] by simp

lemma unat_of_nat_byte: "n < 256 \<Longrightarrow> unat (of_nat n :: byte) = n"
  by (simp add: unat_of_nat)

lemma unat_of_nat_jschar: "n < 65536 \<Longrightarrow> unat (of_nat n :: jschar) = n"
  by (simp add: unat_of_nat)

lemma utf16_code_points: "concat (map utf16_encode (code_points s)) = s"
proof (induction s rule: code_points.induct)
  case 1
  show ?case by simp
next
  case (2 c)
  show ?case using unat_jschar_lt [of c] by (simp add: utf16_encode_def)
next
  case (3 h l cs)
  show ?case
  proof (cases "is_high h \<and> is_low l")
    case True
    define x where "x = unat h - 0xD800"
    define y where "y = unat l - 0xDC00"
    from True have h: "unat h = 0xD800 + x" and l: "unat l = 0xDC00 + y" and b: "x < 0x400" "y < 0x400"
      by (auto simp add: is_high_def is_low_def x_def y_def)
    have d: "(x * 0x400 + y) div 0x400 = x" "(x * 0x400 + y) mod 0x400 = y"
      using b by auto
    have "utf16_encode (0x10000 + x * 0x400 + y) = [of_nat (0xD800 + x), of_nat (0xDC00 + y)]"
      using d by (simp add: utf16_encode_def del: of_nat_add)
    also have "\<dots> = [h, l]"
      unfolding h [symmetric] l [symmetric] by simp
    finally show ?thesis using True 3 by (simp add: x_def y_def)
  next
    case False
    with 3 show ?thesis using unat_jschar_lt [of h] by (auto simp add: utf16_encode_def)
  qed
qed

lemma unat_ucast_byte: "unat (ucast (b :: byte) :: jschar) = unat b"
  using unat_byte_lt [of b] by (simp add: unsigned_ucast_eq take_bit_nat_eq_self)

lemma ucast_ucast_byte: "(ucast (ucast (b :: byte) :: jschar) :: byte) = b"
  by (simp add: ucast_up_ucast_id is_up)

lemma ucast_of_nat_byte: "n < 256 \<Longrightarrow> (ucast (of_nat n :: jschar) :: byte) = of_nat n"
  by (simp add: unsigned_of_nat take_bit_nat_eq_self)

lemma unat_hex_digit: "n < 16 \<Longrightarrow> unat (hex_digit n) = (if n < 10 then 0x30 + n else 0x37 + n)"
  by (simp add: hex_digit_def unat_word_ariths unat_of_nat)

lemma hex_value_hex_digit: "n < 16 \<Longrightarrow> hex_value (hex_digit n) = Some n"
  by (auto simp add: hex_value_def unat_hex_digit Let_def)

lemma hex_digit_not_u: "n < 16 \<Longrightarrow> hex_digit n \<noteq> 0x75"
  by (auto simp add: word_unat_eq_iff unat_hex_digit)

lemma byte_halves: "unat (b :: byte) div 16 < 16 \<and> unat b mod 16 < 16
    \<and> unat b div 16 * 16 + unat b mod 16 = unat b"
  using unat_byte_lt [of b] by auto

lemma parse_percent:
  "parse_hex2 (hex_digit (unat (b :: byte) div 16) # hex_digit (unat b mod 16) # r) = Some (unat b, r)"
  using byte_halves [of b] by (simp add: hex_value_hex_digit)

lemma unescape_percent: "unescape (percent b @ r) = ucast b # unescape r"
  using byte_halves [of b]
  by (simp add: percent_def parse_percent hex_digit_not_u del: parse_hex2.simps)

lemma unescape_percents: "unescape (concat (map percent bs) @ r) = map ucast bs @ unescape r"
  by (induction bs) (simp_all add: unescape_percent)

lemma code_points_lt: "cp \<in> set (code_points s) \<Longrightarrow> cp < 0x110000"
proof (induction s arbitrary: cp rule: code_points.induct)
  case 1
  then show ?case by simp
next
  case (2 c)
  then show ?case using unat_jschar_lt [of c] by simp
next
  case (3 h l cs)
  show ?case
  proof (cases "is_high h \<and> is_low l")
    case True
    with 3 show ?thesis
      by (auto simp add: is_high_def is_low_def)
  next
    case False
    with 3 show ?thesis using unat_jschar_lt [of h] by auto
  qed
qed

lemma uri_unreserved_not_percent: "uri_unreserved c \<Longrightarrow> c \<noteq> 0x25"
  by (auto simp add: uri_unreserved_def Let_def)

lemma unescape_encoded:
  "map ucast (unescape (concat (map uri_encode_cp cps))) = concat (map utf8_encode cps)"
proof (induction cps)
  case Nil
  show ?case by simp
next
  case (Cons cp cps)
  show ?case
  proof (cases "cp < 0x80 \<and> uri_unreserved (of_nat cp)")
    case True
    then have n: "(of_nat cp :: jschar) \<noteq> 0x25"
      using uri_unreserved_not_percent by blast
    from True have e: "uri_encode_cp cp = [of_nat cp]" "utf8_encode cp = [of_nat cp]"
      by (simp_all add: uri_encode_cp_def utf8_encode_def)
    from True have "(ucast (of_nat cp :: jschar) :: byte) = of_nat cp"
      by (simp add: ucast_of_nat_byte)
    with n e Cons show ?thesis by simp
  next
    case False
    then have e: "uri_encode_cp cp = concat (map percent (utf8_encode cp))"
      by (auto simp add: uri_encode_cp_def)
    show ?thesis
      using Cons by (simp add: e unescape_percents comp_def ucast_ucast_byte)
  qed
qed

lemma CryptoJS_MD5_utf8: "well_formed s \<Longrightarrow> CryptoJS_MD5 s = Inr (MD5 (utf8_bytes s))"
  by (simp add: CryptoJS_MD5_def encodeURIComponent_def well_formed_def utf8_bytes_def
      unescape_encoded)

lemma CryptoJS_MD5_ill_formed: "\<not> well_formed s \<Longrightarrow> CryptoJS_MD5 s = Inl URIError"
  by (simp add: CryptoJS_MD5_def encodeURIComponent_def well_formed_def)


lemma upper_hex_lower:
  assumes "n < 16"
  shows "(if 0x61 \<le> unat (hex_lower n) \<and> unat (hex_lower n) \<le> 0x7A
          then hex_lower n - 0x20 else hex_lower n) = hex_digit n"
proof (cases "n < 10")
  case True
  then show ?thesis by (simp add: hex_lower_def hex_digit_def unat_word_ariths unat_of_nat)
next
  case False
  with assms have "unat (hex_lower n) = 0x57 + n"
    by (simp add: hex_lower_def unat_word_ariths unat_of_nat)
  moreover have "hex_lower n - 0x20 = hex_digit n"
    using False by (simp add: hex_lower_def hex_digit_def)
  ultimately show ?thesis using assms False by simp
qed

lemma toUpperCase_Hex_stringify: "toUpperCase (Hex_stringify bs) = hex_upper bs"
proof (induction bs)
  case Nil
  show ?case by (simp add: toUpperCase_def Hex_stringify_def hex_upper_def)
next
  case (Cons b bs)
  have "toUpperCase (Hex_stringify (b # bs)) =
        toUpperCase [hex_lower (unat b div 16), hex_lower (unat b mod 16)] @ toUpperCase (Hex_stringify bs)"
    by (simp add: toUpperCase_def Hex_stringify_def)
  also have "toUpperCase [hex_lower (unat b div 16), hex_lower (unat b mod 16)]
        = [hex_digit (unat b div 16), hex_digit (unat b mod 16)]"
    using byte_halves [of b] upper_hex_lower [of "unat b div 16"] upper_hex_lower [of "unat b mod 16"]
    by (simp add: toUpperCase_def)
  finally show ?case using Cons by (simp add: hex_upper_def)
qed





lemma unat_of_char: "unat (of_char c :: jschar) = of_char c"
proof -
  have "(of_char c :: jschar) = of_nat (of_char c)"
    by (rule of_nat_of_char [symmetric])
  moreover have "(of_char c :: nat) < 65536"
    by (rule less_trans [OF nat_of_char_less_256]) simp
  ultimately show ?thesis by (simp only: unat_of_nat_jschar)
qed

lemma code_points_plain:
  assumes "\<forall>c\<in>set s. unat c < 0xD800"
  shows "code_points s = map unat s"
  using assms by (induction s rule: code_points.induct) (auto simp add: is_high_def)

lemma well_formed_plain:
  assumes "\<forall>c\<in>set s. unat c < 0xD800"
  shows "well_formed s"
  using assms
  by (auto simp add: well_formed_def code_points_plain list_ex_iff is_surrogate_def)

lemma well_formed_js: "well_formed (js s)"
proof (rule well_formed_plain, rule ballI)
  fix c assume "c \<in> set (js s)"
  then obtain k where c: "c = of_char k" by (auto simp add: js_def)
  show "unat c < 0xD800"
    unfolding c unat_of_char by (rule less_trans [OF nat_of_char_less_256]) simp
qed

lemma toUSVString_well_formed: "well_formed s \<Longrightarrow> toUSVString s = s"
proof -
  assume "well_formed s"
  then have "toUSVString s = concat (map utf16_encode (code_points s))"
    unfolding toUSVString_def
    by (intro arg_cong [where f = concat] map_cong) (auto simp add: well_formed_def list_ex_iff)
  then show ?thesis by (simp only: utf16_code_points)
qed

lemma toUSVString_js: "toUSVString (js s) = js s"
  by (simp add: toUSVString_well_formed well_formed_js)



lemma md5UpperHex_fallback:
  assumes "input \<noteq> []" and "invoke_md5 w input = Inl e"
  shows "md5UpperHex w input = (if well_formed input then Inr (md5_hex input) else Inl URIError)"
  using assms
  by (simp add: md5UpperHex_def CryptoJS_MD5_utf8 CryptoJS_MD5_ill_formed
      toUpperCase_Hex_stringify md5_hex_def)



lemma effective_timestamp_code:
  "(case forceTime options of Some t \<Rightarrow> t
    | None \<Rightarrow> (case timestamp (request options) of Some t \<Rightarrow> t
               | None \<Rightarrow> getTimestamp (localNow w))) = effective_timestamp options w"
  by (simp add: effective_timestamp_def split: option.splits)

lemma effective_payload_code:
  "(case dataB64 r of Some d \<Rightarrow> if d \<noteq> [] \<and> 0 < length d then d else []
    | None \<Rightarrow> []) = effective_payload r"
  by (simp add: effective_payload_def split: option.splits)

lemma executeMultipartRequest_signed:
  assumes "md5UpperHex w (effective_timestamp options w @ effective_payload (request options)
             @ password (request options)) = Inr sign"
  shows "executeMultipartRequest options w =
     (case fetch w (url (request options))
             (form_fields (request options) (effective_timestamp options w)
                (effective_payload (request options)) sign) (timeoutMs options) of
        Inl e \<Rightarrow> Inl e
      | Inr res \<Rightarrow> Inr \<lparr>x_responseText = r_text res, x_status = Some (r_status res),
                        x_ok = r_ok res, x_durationMs = Math_round (r_elapsed res),
                        x_timestamp = effective_timestamp options w, x_sign = sign\<rparr>,
      w\<lparr>posted := posted w @ [(url (request options),
             form_fields (request options) (effective_timestamp options w)
                (effective_payload (request options)) sign)]\<rparr>)"
  unfolding executeMultipartRequest_def Let_def effective_timestamp_code effective_payload_code
  using assms
  by (simp add: form_fields_def FormData_append_def toUSVString_js split: sum.splits)

lemma executeMultipartRequest_unsigned:
  assumes "md5UpperHex w (effective_timestamp options w @ effective_payload (request options)
             @ password (request options)) = Inl e"
  shows "executeMultipartRequest options w = (Inl e, w)"
  unfolding executeMultipartRequest_def Let_def effective_timestamp_code effective_payload_code
  using assms by simp






lemma utf8_bytes_example: "utf8_bytes (js ''20240115093000eyJhIjoxfQ==secret'') = [0x32, 0x30, 0x32, 0x34, 0x30, 0x31, 0x31, 0x35, 0x30, 0x39, 0x33, 0x30, 0x30, 0x30, 0x65, 0x79, 0x4a, 0x68, 0x49, 0x6a, 0x6f, 0x78, 0x66, 0x51, 0x3d, 0x3d, 0x73, 0x65, 0x63, 0x72, 0x65, 0x74]"
  by (simp add: utf8_bytes_def js_def utf8_encode_def is_high_def is_low_def)

lemma MD5_example: "MD5 [0x32, 0x30, 0x32, 0x34, 0x30, 0x31, 0x31, 0x35, 0x30, 0x39, 0x33, 0x30, 0x30, 0x30, 0x65, 0x79, 0x4a, 0x68, 0x49, 0x6a, 0x6f, 0x78, 0x66, 0x51, 0x3d, 0x3d, 0x73, 0x65, 0x63, 0x72, 0x65, 0x74] = [0x73, 0xc9, 0x8f, 0x06, 0x52, 0x46, 0x96, 0x29, 0x48, 0x8f, 0x74, 0xd8, 0x50, 0x31, 0x71, 0xf7]"
  by code_simp

lemma hex_upper_example: "hex_upper [0x73, 0xc9, 0x8f, 0x06, 0x52, 0x46, 0x96, 0x29, 0x48, 0x8f, 0x74, 0xd8, 0x50, 0x31, 0x71, 0xf7] = js ''73C98F0652469629488F74D8503171F7''"
  by (simp add: hex_upper_def hex_digit_def js_def)

lemma md5_hex_example: "md5_hex (js ''20240115093000eyJhIjoxfQ==secret'') = js ''73C98F0652469629488F74D8503171F7''"
  unfolding md5_hex_def utf8_bytes_example MD5_example hex_upper_example ..

lemma well_formed_example: "well_formed (js ''20240115093000eyJhIjoxfQ==secret'')"
  by (simp add: well_formed_def js_def is_high_def is_low_def is_surrogate_def)

text \<open>The digest of the eighty digits of the test suite of RFC 1321, a message of two blocks.\<close>

lemma MD5_two_blocks:
  "MD5 [0x31, 0x32, 0x33, 0x34, 0x35, 0x36, 0x37, 0x38, 0x39, 0x30, 0x31, 0x32, 0x33, 0x34, 0x35, 0x36, 0x37, 0x38, 0x39, 0x30, 0x31, 0x32, 0x33, 0x34, 0x35, 0x36, 0x37, 0x38, 0x39, 0x30, 0x31, 0x32, 0x33, 0x34, 0x35, 0x36, 0x37, 0x38, 0x39, 0x30, 0x31, 0x32, 0x33, 0x34, 0x35, 0x36, 0x37, 0x38, 0x39, 0x30, 0x31, 0x32, 0x33, 0x34, 0x35, 0x36, 0x37, 0x38, 0x39, 0x30, 0x31, 0x32, 0x33, 0x34, 0x35, 0x36, 0x37, 0x38, 0x39, 0x30, 0x31, 0x32, 0x33, 0x34, 0x35, 0x36, 0x37, 0x38, 0x39, 0x30]
   = [0x57, 0xed, 0xf4, 0xa2, 0x2b, 0xe3, 0xc9, 0x55, 0xac, 0x49, 0xda, 0x2e, 0x21, 0x07, 0xb6, 0x7a]"
  by code_simp



lemma digits_chars: "list_all is_digit (digits n)"
proof (induction n rule: digits.induct)
  case (1 n)
  have "is_digit (of_nat (0x30 + k))" if "k < 10" for k
    using that by (simp add: is_digit_def unat_word_ariths unat_of_nat)
  then have "is_digit (of_nat (0x30 + n mod 10))" "n < 10 \<Longrightarrow> is_digit (of_nat (0x30 + n))"
    by simp_all
  with 1 show ?case
    by (subst digits.simps) simp
qed

lemma length_digits: "0 < k \<Longrightarrow> n < 10 ^ k \<Longrightarrow> length (digits n) \<le> k"
proof (induction k arbitrary: n)
  case 0
  then show ?case by simp
next
  case (Suc k)
  show ?case
  proof (cases "n < 10")
    case True
    then show ?thesis by (subst digits.simps) simp
  next
    case False
    with Suc.prems have k: "0 < k" by (cases k) auto
    from Suc.prems have "n div 10 < 10 ^ k" by (simp add: less_mult_imp_div_less mult.commute)
    with Suc.IH k have "length (digits (n div 10)) \<le> k" by blast
    with False show ?thesis by (subst digits.simps) simp
  qed
qed

lemma addLeadingZeros_shape:
  assumes "0 < k" and "n < 10 ^ k"
  shows "length (addLeadingZeros n k) = k \<and> list_all is_digit (addLeadingZeros n k)"
  using length_digits [OF assms] digits_chars [of n]
  by (auto simp add: addLeadingZeros_def is_digit_def list_all_iff)

lemma getTimestamp_shape:
  assumes "clock_ok d"
  shows "length (getTimestamp d) = 14 \<and> list_all is_digit (getTimestamp d)"
proof -
  have y: "nat (if 0 < fullYear d then fullYear d else 1 - fullYear d) < 10 ^ 4"
    using assms by (auto simp add: clock_ok_def)
  have m: "month d + 1 < 10 ^ 2" "date d < 10 ^ 2" "hours d < 10 ^ 2" "minutes d < 10 ^ 2"
    "seconds d < 10 ^ 2"
    using assms by (auto simp add: clock_ok_def)
  note s = addLeadingZeros_shape [OF _ y] m [THEN addLeadingZeros_shape [rotated]]
  from s show ?thesis
    by (simp add: getTimestamp_def format_yyyyMMddHHmmss_def)
qed

lemma foldl_decimal:
  "foldl (\<lambda>n c. 10 * n + (unat (c :: jschar) - 0x30)) k s
     = k * 10 ^ length s + foldl (\<lambda>n c. 10 * n + (unat c - 0x30)) 0 s"
proof (induction s arbitrary: k)
  case Nil
  show ?case by simp
next
  case (Cons c s)
  let ?f = "\<lambda>n c. 10 * n + (unat (c :: jschar) - 0x30)"
  have "foldl ?f k (c # s) = foldl ?f (10 * k + (unat c - 0x30)) s" by simp
  also have "\<dots> = (10 * k + (unat c - 0x30)) * 10 ^ length s + foldl ?f 0 s"
    by (rule Cons.IH)
  finally have l: "foldl ?f k (c # s) = (10 * k + (unat c - 0x30)) * 10 ^ length s + foldl ?f 0 s" .
  have "foldl ?f 0 (c # s) = foldl ?f (unat c - 0x30) s" by simp
  also have "\<dots> = (unat c - 0x30) * 10 ^ length s + foldl ?f 0 s"
    by (rule Cons.IH)
  finally have r: "foldl ?f 0 (c # s) = (unat c - 0x30) * 10 ^ length s + foldl ?f 0 s" .
  show ?case unfolding l r by (simp add: algebra_simps)
qed

lemma decimal_append: "decimal (a @ b) = decimal a * 10 ^ length b + decimal b"
  unfolding decimal_def foldl_append by (rule foldl_decimal)

lemma decimal_digit: "k < 10 \<Longrightarrow> decimal [of_nat (0x30 + k)] = k"
  by (simp add: decimal_def unat_word_ariths unat_of_nat)

lemma decimal_digits: "decimal (digits n) = n"
proof (induction n rule: digits.induct)
  case (1 n)
  show ?case
  proof (cases "n < 10")
    case True
    then show ?thesis by (subst digits.simps) (simp add: decimal_digit del: of_nat_add)
  next
    case False
    with 1 have "decimal (digits (n div 10)) = n div 10" by simp
    moreover have "decimal [of_nat (0x30 + n mod 10)] = n mod 10"
      by (rule decimal_digit) simp
    ultimately show ?thesis
      using False by (subst digits.simps) (simp add: decimal_append del: of_nat_add)
  qed
qed

lemma decimal_zeros: "decimal (replicate k 0x30) = 0"
  by (induction k) (simp_all add: decimal_def)

lemma decimal_addLeadingZeros: "decimal (addLeadingZeros n k) = n"
  by (simp add: addLeadingZeros_def decimal_append decimal_zeros decimal_digits)

lemma getTimestamp_decimal:
  assumes "clock_ok d"
  shows "decimal (getTimestamp d) = stamp_number d"
proof -
  have m: "month d + 1 < 10 ^ 2" "date d < 10 ^ 2" "hours d < 10 ^ 2" "minutes d < 10 ^ 2"
    "seconds d < 10 ^ 2"
    using assms by (auto simp add: clock_ok_def)
  note s = m [THEN addLeadingZeros_shape [rotated], THEN conjunct1]
  have y: "(if 0 < fullYear d then fullYear d else 1 - fullYear d) = fullYear d"
    using assms by (simp add: clock_ok_def)
  from s show ?thesis
    unfolding getTimestamp_def format_yyyyMMddHHmmss_def y stamp_number_def
    by (simp add: decimal_append decimal_addLeadingZeros)
qed


lemma example_rejects: "invoke_md5 example_world input = Inl (Rejected (js ''no native runtime''))"
  by (simp add: example_world_def)

lemma example_posted: "posted example_world = []"
  by (simp add: example_world_def)


lemma js_append: "js a @ js b = js (a @ b)"
  by (simp add: js_def)


lemma example_input_not_empty: "js ''20240115093000eyJhIjoxfQ==secret'' \<noteq> []"
  by (simp add: js_def)

lemma ill_formed_input:
  "effective_timestamp ill_formed_options w
     @ effective_payload (request ill_formed_options) @ password (request ill_formed_options)
     = js ''20240115093000eyJhIjoxfQ=='' @ [0xD800]"
  by (simp add: effective_timestamp_def effective_payload_def ill_formed_options_def
      example_options_def js_def)

lemma ill_formed_input_not_empty: "js ''20240115093000eyJhIjoxfQ=='' @ [0xD800] \<noteq> []"
  by simp

lemma ill_formed_input_surrogate: "\<not> well_formed (js ''20240115093000eyJhIjoxfQ=='' @ [0xD800])"
  by (simp add: well_formed_def js_def is_high_def is_low_def is_surrogate_def)

lemma ill_formed_sign:
  "md5UpperHex example_world (js ''20240115093000eyJhIjoxfQ=='' @ [0xD800]) = Inl URIError"
  using md5UpperHex_fallback [OF ill_formed_input_not_empty example_rejects]
    ill_formed_input_surrogate
  by simp





text \<open>
  C10 (as amended). Whenever the signature is computed, \<open>executeMultipartRequest\<close> posts
  to the URL of the request exactly the fields \<open>appkey\<close>, \<open>timestamp\<close>, \<open>data\<close>,
  \<open>sign\<close>, \<open>ver\<close> in this order, holding the effective timestamp (the forced one,
  else the one of the request, else a fresh one), the effective payload (\<open>dataB64\<close>
  when not empty, else the empty string), the sign and \<open>ver\<close> or \<open>"1"\<close>, each as
  \<open>FormData.append\<close> converts it: a well-formed value as it is, an unpaired surrogate
  as U+FFFD. An execution it returns carries that timestamp and sign; when signing throws,
  nothing is posted. Under a clock in the years 1 to 9999 a fresh timestamp is the fourteen
  decimal digits \<open>yyyyMMddHHmmss\<close> of the local time. The outcome does not depend on
  \<open>dataRaw\<close>.
\<close>

theorem executeMultipartRequest_form:
  "(\<forall>sign. md5UpperHex w (effective_timestamp options w @ effective_payload (request options)
                @ password (request options)) = Inr sign
      \<longrightarrow> posted (snd (executeMultipartRequest options w))
            = posted w @ [(url (request options),
                [(js ''appkey'', toUSVString (appkey (request options))),
                 (js ''timestamp'', toUSVString (effective_timestamp options w)),
                 (js ''data'', toUSVString (effective_payload (request options))),
                 (js ''sign'', toUSVString sign),
                 (js ''ver'', toUSVString (if ver (request options) = [] then js ''1''
                                           else ver (request options)))])]
        \<and> (\<forall>ex. fst (executeMultipartRequest options w) = Inr ex
               \<longrightarrow> x_timestamp ex = effective_timestamp options w \<and> x_sign ex = sign))
   \<and> (\<forall>e. md5UpperHex w (effective_timestamp options w @ effective_payload (request options)
                @ password (request options)) = Inl e
      \<longrightarrow> executeMultipartRequest options w = (Inl e, w))
   \<and> (\<forall>s. well_formed s \<longrightarrow> toUSVString s = s)
   \<and> (forceTime options = None \<and> timestamp (request options) = None \<and> clock_ok (localNow w)
      \<longrightarrow> length (effective_timestamp options w) = 14
        \<and> list_all is_digit (effective_timestamp options w)
        \<and> decimal (effective_timestamp options w) = stamp_number (localNow w))
   \<and> executeMultipartRequest (options\<lparr>request := (request options)\<lparr>dataRaw := raw\<rparr>\<rparr>) w
       = executeMultipartRequest options w"
proof -
  have a: "posted (snd (executeMultipartRequest options w))
            = posted w @ [(url (request options),
                [(js ''appkey'', toUSVString (appkey (request options))),
                 (js ''timestamp'', toUSVString (effective_timestamp options w)),
                 (js ''data'', toUSVString (effective_payload (request options))),
                 (js ''sign'', toUSVString sign),
                 (js ''ver'', toUSVString (if ver (request options) = [] then js ''1''
                                           else ver (request options)))])]
        \<and> (\<forall>ex. fst (executeMultipartRequest options w) = Inr ex
               \<longrightarrow> x_timestamp ex = effective_timestamp options w \<and> x_sign ex = sign)"
    if "md5UpperHex w (effective_timestamp options w @ effective_payload (request options)
                @ password (request options)) = Inr sign" for sign
    unfolding executeMultipartRequest_signed [OF that]
    by (auto simp add: form_fields_def split: sum.splits)
  have u: "\<forall>s. well_formed s \<longrightarrow> toUSVString s = s"
    by (simp add: toUSVString_well_formed)
  have c: "length (effective_timestamp options w) = 14
        \<and> list_all is_digit (effective_timestamp options w)
        \<and> decimal (effective_timestamp options w) = stamp_number (localNow w)"
    if "forceTime options = None \<and> timestamp (request options) = None \<and> clock_ok (localNow w)"
    using that getTimestamp_shape [of "localNow w"] getTimestamp_decimal [of "localNow w"]
    by (simp add: effective_timestamp_def)
  have d: "executeMultipartRequest (options\<lparr>request := (request options)\<lparr>dataRaw := raw\<rparr>\<rparr>) w
       = executeMultipartRequest options w"
  proof -
    let ?o = "options\<lparr>request := (request options)\<lparr>dataRaw := raw\<rparr>\<rparr>"
    have t: "effective_timestamp ?o w = effective_timestamp options w"
      by (simp add: effective_timestamp_def)
    have p: "effective_payload ((request options)\<lparr>dataRaw := raw\<rparr>)
          = effective_payload (request options)"
      by (simp add: effective_payload_def)
    have f: "form_fields ((request options)\<lparr>dataRaw := raw\<rparr>) = form_fields (request options)"
      by (simp add: form_fields_def fun_eq_iff)
    show ?thesis
    proof (cases "md5UpperHex w (effective_timestamp options w
        @ effective_payload (request options) @ password (request options))")
      case (Inl e)
      then have "md5UpperHex w (effective_timestamp ?o w
        @ effective_payload (request ?o) @ password (request ?o)) = Inl e"
        by (simp add: t p)
      from executeMultipartRequest_unsigned [OF this] executeMultipartRequest_unsigned [OF Inl]
      show ?thesis by simp
    next
      case (Inr s)
      then have "md5UpperHex w (effective_timestamp ?o w
        @ effective_payload (request ?o) @ password (request ?o)) = Inr s"
        by (simp add: t p)
      from executeMultipartRequest_signed [OF this] executeMultipartRequest_signed [OF Inr]
      show ?thesis by (simp add: t p f cong: sum.case_cong)
    qed
  qed
  from a executeMultipartRequest_unsigned [of w options] u c d show ?thesis by blast
qed

lemma fresh_timestamp: "effective_timestamp fresh_options example_world = js ''20240115093000''"
  by (simp add: effective_timestamp_def fresh_options_def example_world_def getTimestamp_def
      format_yyyyMMddHHmmss_def addLeadingZeros_def digits.simps js_def)

lemma fresh_sign:
  "md5UpperHex example_world (js ''20240115093000eyJhIjoxfQ==secret'')
     = Inr (js ''73C98F0652469629488F74D8503171F7'')"
  using md5UpperHex_fallback [OF example_input_not_empty example_rejects] well_formed_example
  by (simp add: md5_hex_example)

text \<open>
  The amended C10 at a request without timestamp, at 2024-01-15 09:30:00 local time, and at
  a request whose signing throws.
\<close>

theorem executeMultipartRequest_form_witness:
  "effective_timestamp fresh_options example_world = js ''20240115093000''
   \<and> clock_ok (localNow example_world)
   \<and> stamp_number (localNow example_world) = 20240115093000
   \<and> decimal (effective_timestamp fresh_options example_world) = 20240115093000
   \<and> length (effective_timestamp fresh_options example_world) = 14
   \<and> md5UpperHex example_world (effective_timestamp fresh_options example_world
        @ effective_payload (request fresh_options) @ password (request fresh_options))
       = Inr (js ''73C98F0652469629488F74D8503171F7'')
   \<and> posted (snd (executeMultipartRequest fresh_options example_world))
       = [(js ''http://localhost/api'',
           [(js ''appkey'', js ''demo''), (js ''timestamp'', js ''20240115093000''),
            (js ''data'', js ''eyJhIjoxfQ==''), (js ''sign'', js ''73C98F0652469629488F74D8503171F7''),
            (js ''ver'', js ''2'')])]
   \<and> md5UpperHex example_world (effective_timestamp ill_formed_options example_world
        @ effective_payload (request ill_formed_options) @ password (request ill_formed_options))
       = Inl URIError
   \<and> executeMultipartRequest ill_formed_options example_world = (Inl URIError, example_world)"
proof -
  have c: "clock_ok (localNow example_world)"
    by (simp add: clock_ok_def example_world_def)
  have k: "stamp_number (localNow example_world) = 20240115093000"
    by (simp add: stamp_number_def example_world_def)
  have n: "forceTime fresh_options = None \<and> timestamp (request fresh_options) = None"
    by (simp add: fresh_options_def)
  have p: "effective_payload (request fresh_options) = js ''eyJhIjoxfQ==''"
    "password (request fresh_options) = js ''secret''"
    "url (request fresh_options) = js ''http://localhost/api''"
    "appkey (request fresh_options) = js ''demo''" "ver (request fresh_options) = js ''2''"
    by (simp_all add: effective_payload_def fresh_options_def js_def)
  have i: "js ''20240115093000'' @ js ''eyJhIjoxfQ=='' @ js ''secret''
         = js ''20240115093000eyJhIjoxfQ==secret''"
    by (simp add: js_def)
  have v: "js ''2'' \<noteq> []" by (simp add: js_def)
  have u: "md5UpperHex example_world (effective_timestamp ill_formed_options example_world
        @ effective_payload (request ill_formed_options) @ password (request ill_formed_options))
       = Inl URIError"
    unfolding ill_formed_input by (rule ill_formed_sign)
  from executeMultipartRequest_form [of example_world ill_formed_options] u
  have t: "executeMultipartRequest ill_formed_options example_world
             = (Inl URIError, example_world)"
    by simp
  from executeMultipartRequest_form [of example_world fresh_options] fresh_sign c k n v
  have "effective_timestamp fresh_options example_world = js ''20240115093000''
   \<and> clock_ok (localNow example_world)
   \<and> stamp_number (localNow example_world) = 20240115093000
   \<and> decimal (effective_timestamp fresh_options example_world) = 20240115093000
   \<and> length (effective_timestamp fresh_options example_world) = 14
   \<and> md5UpperHex example_world (effective_timestamp fresh_options example_world
        @ effective_payload (request fresh_options) @ password (request fresh_options))
       = Inr (js ''73C98F0652469629488F74D8503171F7'')
   \<and> posted (snd (executeMultipartRequest fresh_options example_world))
       = [(js ''http://localhost/api'',
           [(js ''appkey'', js ''demo''), (js ''timestamp'', js ''20240115093000''),
            (js ''data'', js ''eyJhIjoxfQ==''), (js ''sign'', js ''73C98F0652469629488F74D8503171F7''),
            (js ''ver'', js ''2'')])]"
    unfolding fresh_timestamp p i example_posted by (simp add: toUSVString_js)
  with u t show ?thesis by blast
qed

text \<open>
  C10 as stated fails at two places. A \<open>ver\<close> of one unpaired surrogate is posted as
  U+FFFD, not as it is; and under a clock of the year 12345 the fresh timestamp has 15
  digits.
\<close>

theorem executeMultipartRequest_surrogate_ver:
  "ver (request surrogate_ver_options) = [0xD800]
   \<and> posted (snd (executeMultipartRequest surrogate_ver_options example_world))
       = [(js ''http://localhost/api'',
           [(js ''appkey'', js ''demo''), (js ''timestamp'', js ''20240115093000''),
            (js ''data'', js ''eyJhIjoxfQ==''), (js ''sign'', js ''73C98F0652469629488F74D8503171F7''),
            (js ''ver'', [0xFFFD])])]
   \<and> forceTime fresh_options = None \<and> timestamp (request fresh_options) = None
   \<and> effective_timestamp fresh_options late_world = js ''123450115093000''
   \<and> length (effective_timestamp fresh_options late_world) = 15"
proof -
  have t: "effective_timestamp surrogate_ver_options example_world = js ''20240115093000''"
    by (simp add: effective_timestamp_def surrogate_ver_options_def fresh_options_def
        example_world_def getTimestamp_def format_yyyyMMddHHmmss_def addLeadingZeros_def
        digits.simps js_def)
  have p: "effective_payload (request surrogate_ver_options) = js ''eyJhIjoxfQ==''"
    "password (request surrogate_ver_options) = js ''secret''"
    "url (request surrogate_ver_options) = js ''http://localhost/api''"
    "appkey (request surrogate_ver_options) = js ''demo''"
    "ver (request surrogate_ver_options) = [0xD800]"
    by (simp_all add: effective_payload_def surrogate_ver_options_def fresh_options_def js_def)
  have i: "js ''20240115093000'' @ js ''eyJhIjoxfQ=='' @ js ''secret''
         = js ''20240115093000eyJhIjoxfQ==secret''"
    by (simp add: js_def)
  have s: "md5UpperHex example_world (effective_timestamp surrogate_ver_options example_world
        @ effective_payload (request surrogate_ver_options)
        @ password (request surrogate_ver_options))
       = Inr (js ''73C98F0652469629488F74D8503171F7'')"
    unfolding t p i by (rule fresh_sign)
  have u: "toUSVString [0xD800] = [0xFFFD]"
    by (simp add: toUSVString_def is_surrogate_def)
  have a: "posted (snd (executeMultipartRequest surrogate_ver_options example_world))
       = [(js ''http://localhost/api'',
           [(js ''appkey'', js ''demo''), (js ''timestamp'', js ''20240115093000''),
            (js ''data'', js ''eyJhIjoxfQ==''), (js ''sign'', js ''73C98F0652469629488F74D8503171F7''),
            (js ''ver'', [0xFFFD])])]"
    unfolding executeMultipartRequest_signed [OF s] form_fields_def t p example_posted
    by (simp add: toUSVString_js u)
  have l: "effective_timestamp fresh_options late_world = js ''123450115093000''"
    by (simp add: effective_timestamp_def fresh_options_def late_world_def example_world_def
        getTimestamp_def format_yyyyMMddHHmmss_def addLeadingZeros_def digits.simps js_def)
  have n: "forceTime fresh_options = None \<and> timestamp (request fresh_options) = None"
    by (simp add: fresh_options_def)
  from a l n p(5) show ?thesis by (simp add: js_def)
qed

section \<open>Codec: proofs\<close>

lemma utf8_1:
  assumes "cp < 0x80"
  shows "utf8_encode cp = [of_nat cp]" "utf8_need (of_nat cp) = 1" "unat (of_nat cp :: byte) = cp"
  using assms by (simp_all add: utf8_encode_def utf8_need_def unat_of_nat)

lemma utf8_2:
  assumes "0x80 \<le> cp" "cp < 0x800"
  shows "utf8_encode cp = [of_nat (0xC0 + cp div 0x40), of_nat (0x80 + cp mod 0x40)]"
    and "unat (of_nat (0xC0 + cp div 0x40) :: byte) = 0xC0 + cp div 0x40"
    and "unat (of_nat (0x80 + cp mod 0x40) :: byte) = 0x80 + cp mod 0x40"
    and "2 \<le> cp div 0x40" "cp div 0x40 < 0x20"
proof -
  show "utf8_encode cp = [of_nat (0xC0 + cp div 0x40), of_nat (0x80 + cp mod 0x40)]"
    using assms by (simp add: utf8_encode_def del: of_nat_add)
  show a: "2 \<le> cp div 0x40" "cp div 0x40 < 0x20" using assms by auto
  show "unat (of_nat (0xC0 + cp div 0x40) :: byte) = 0xC0 + cp div 0x40"
    using a by (simp add: unat_of_nat_byte del: of_nat_add)
  show "unat (of_nat (0x80 + cp mod 0x40) :: byte) = 0x80 + cp mod 0x40"
    by (simp add: unat_of_nat_byte del: of_nat_add)
qed

lemma digits64_3:
  fixes cp :: nat
  shows "cp = cp div 0x1000 * 0x1000 + cp div 0x40 mod 0x40 * 0x40 + cp mod 0x40"
proof -
  have "cp mod 0x1000 = 0x40 * (cp div 0x40 mod 0x40) + cp mod 0x40"
    using mod_mult2_eq [of cp "0x40" "0x40"] by simp
  moreover have "cp = cp div 0x1000 * 0x1000 + cp mod 0x1000"
    by simp
  ultimately show ?thesis by simp
qed

lemma digits64_4:
  fixes cp :: nat
  shows "cp = cp div 0x40000 * 0x40000 + cp div 0x1000 mod 0x40 * 0x1000
            + cp div 0x40 mod 0x40 * 0x40 + cp mod 0x40"
proof -
  have "cp mod 0x40000 = 0x1000 * (cp div 0x1000 mod 0x40) + cp mod 0x1000"
    using mod_mult2_eq [of cp "0x1000" "0x40"] by simp
  moreover have "cp mod 0x1000 = 0x40 * (cp div 0x40 mod 0x40) + cp mod 0x40"
    using mod_mult2_eq [of cp "0x40" "0x40"] by simp
  moreover have "cp = cp div 0x40000 * 0x40000 + cp mod 0x40000"
    by simp
  ultimately show ?thesis by simp
qed

lemma utf8_3:
  assumes "0x800 \<le> cp" "cp < 0x10000"
  shows "utf8_encode cp = [of_nat (0xE0 + cp div 0x1000), of_nat (0x80 + cp div 0x40 mod 0x40),
                          of_nat (0x80 + cp mod 0x40)]"
    and "unat (of_nat (0xE0 + cp div 0x1000) :: byte) = 0xE0 + cp div 0x1000"
    and "unat (of_nat (0x80 + cp div 0x40 mod 0x40) :: byte) = 0x80 + cp div 0x40 mod 0x40"
    and "unat (of_nat (0x80 + cp mod 0x40) :: byte) = 0x80 + cp mod 0x40"
    and "cp div 0x1000 < 0x10"
    and "cp div 0x1000 = 0 \<Longrightarrow> 0x20 \<le> cp div 0x40 mod 0x40"
    and "cp div 0x1000 = 0xD \<Longrightarrow> \<not> is_surrogate cp \<Longrightarrow> cp div 0x40 mod 0x40 < 0x20"
proof -
  define q where "q = cp div 0x1000"
  define r where "r = cp div 0x40 mod 0x40"
  define t where "t = cp mod 0x40"
  have e: "cp = q * 0x1000 + r * 0x40 + t" and b: "r < 0x40" "t < 0x40"
    using digits64_3 [of cp] by (simp_all add: q_def r_def t_def)
  show "utf8_encode cp = [of_nat (0xE0 + cp div 0x1000), of_nat (0x80 + cp div 0x40 mod 0x40),
                          of_nat (0x80 + cp mod 0x40)]"
    using assms by (simp add: utf8_encode_def del: of_nat_add)
  have a: "q < 0x10" using assms e b by arith
  then show "cp div 0x1000 < 0x10" by (simp add: q_def)
  show "unat (of_nat (0xE0 + cp div 0x1000) :: byte) = 0xE0 + cp div 0x1000"
    using a by (simp add: unat_of_nat_byte q_def del: of_nat_add)
  show "unat (of_nat (0x80 + cp div 0x40 mod 0x40) :: byte) = 0x80 + cp div 0x40 mod 0x40"
    by (simp add: unat_of_nat_byte del: of_nat_add)
  show "unat (of_nat (0x80 + cp mod 0x40) :: byte) = 0x80 + cp mod 0x40"
    by (simp add: unat_of_nat_byte del: of_nat_add)
  have "0x20 \<le> r" if "q = 0"
    using that assms e b by arith
  then show "0x20 \<le> cp div 0x40 mod 0x40" if "cp div 0x1000 = 0"
    using that by (simp add: q_def r_def)
  have "r < 0x20" if "q = 0xD" "\<not> (0xD800 \<le> cp \<and> cp \<le> 0xDFFF)"
    using that assms e b by arith
  then show "cp div 0x40 mod 0x40 < 0x20" if "cp div 0x1000 = 0xD" "\<not> is_surrogate cp"
    using that by (simp add: q_def r_def is_surrogate_def)
qed

lemma utf8_4:
  assumes "0x10000 \<le> cp" "cp < 0x110000"
  shows "utf8_encode cp = [of_nat (0xF0 + cp div 0x40000), of_nat (0x80 + cp div 0x1000 mod 0x40),
                          of_nat (0x80 + cp div 0x40 mod 0x40), of_nat (0x80 + cp mod 0x40)]"
    and "unat (of_nat (0xF0 + cp div 0x40000) :: byte) = 0xF0 + cp div 0x40000"
    and "unat (of_nat (0x80 + cp div 0x1000 mod 0x40) :: byte) = 0x80 + cp div 0x1000 mod 0x40"
    and "unat (of_nat (0x80 + cp div 0x40 mod 0x40) :: byte) = 0x80 + cp div 0x40 mod 0x40"
    and "unat (of_nat (0x80 + cp mod 0x40) :: byte) = 0x80 + cp mod 0x40"
    and "cp div 0x40000 \<le> 4"
    and "cp div 0x40000 = 0 \<Longrightarrow> 0x10 \<le> cp div 0x1000 mod 0x40"
    and "cp div 0x40000 = 4 \<Longrightarrow> cp div 0x1000 mod 0x40 < 0x10"
proof -
  define p where "p = cp div 0x40000"
  define q where "q = cp div 0x1000 mod 0x40"
  define r where "r = cp div 0x40 mod 0x40"
  define t where "t = cp mod 0x40"
  have e: "cp = p * 0x40000 + q * 0x1000 + r * 0x40 + t" and b: "q < 0x40" "r < 0x40" "t < 0x40"
    using digits64_4 [of cp] by (simp_all add: p_def q_def r_def t_def)
  show "utf8_encode cp = [of_nat (0xF0 + cp div 0x40000), of_nat (0x80 + cp div 0x1000 mod 0x40),
                          of_nat (0x80 + cp div 0x40 mod 0x40), of_nat (0x80 + cp mod 0x40)]"
    using assms by (simp add: utf8_encode_def del: of_nat_add)
  have a: "p \<le> 4" using assms e b by arith
  then show "cp div 0x40000 \<le> 4" by (simp add: p_def)
  show "unat (of_nat (0xF0 + cp div 0x40000) :: byte) = 0xF0 + cp div 0x40000"
    using a by (simp add: unat_of_nat_byte p_def del: of_nat_add)
  show "unat (of_nat (0x80 + cp div 0x1000 mod 0x40) :: byte) = 0x80 + cp div 0x1000 mod 0x40"
    by (simp add: unat_of_nat_byte del: of_nat_add)
  show "unat (of_nat (0x80 + cp div 0x40 mod 0x40) :: byte) = 0x80 + cp div 0x40 mod 0x40"
    by (simp add: unat_of_nat_byte del: of_nat_add)
  show "unat (of_nat (0x80 + cp mod 0x40) :: byte) = 0x80 + cp mod 0x40"
    by (simp add: unat_of_nat_byte del: of_nat_add)
  have "0x10 \<le> q" if "p = 0"
    using that assms e b by arith
  then show "0x10 \<le> cp div 0x1000 mod 0x40" if "cp div 0x40000 = 0"
    using that by (simp add: p_def q_def)
  have "q < 0x10" if "p = 4"
    using that assms e b by arith
  then show "cp div 0x1000 mod 0x40 < 0x10" if "cp div 0x40000 = 4"
    using that by (simp add: p_def q_def)
qed

lemma utf8_scalar_encode:
  assumes "scalar cp"
  shows "utf8_scalar (utf8_encode cp) = Some cp
       \<and> (\<exists>b bs. utf8_encode cp = b # bs \<and> utf8_need b = Suc (length bs)
              \<and> leading_ones (unat b) = (if bs = [] then 0 else Suc (length bs)))"
proof -
  from assms have lt: "cp < 0x110000" and ns: "\<not> is_surrogate cp"
    by (simp_all add: scalar_def)
  consider "cp < 0x80" | "0x80 \<le> cp" "cp < 0x800" | "0x800 \<le> cp" "cp < 0x10000"
    | "0x10000 \<le> cp"
    by linarith
  then show ?thesis
  proof cases
    case 1
    from utf8_1 [OF 1] obtain b1 where e: "utf8_encode cp = [b1]" and v: "unat b1 = cp"
      by blast
    show ?thesis
      unfolding e using 1 by (simp add: v utf8_need_def leading_ones_def)
  next
    case 2
    note u = utf8_2 [OF 2]
    from u(1,2,3) obtain b1 b2 where e: "utf8_encode cp = [b1, b2]"
      and v: "unat b1 = 0xC0 + cp div 0x40" "unat b2 = 0x80 + cp mod 0x40"
      by blast
    show ?thesis
      unfolding e using u(4,5)
      by (simp add: utf8_need_def utf8_second_def leading_ones_def v Let_def)
  next
    case 3
    note u = utf8_3 [OF 3]
    from u(1,2,3,4) obtain b1 b2 b3 where e: "utf8_encode cp = [b1, b2, b3]"
      and v: "unat b1 = 0xE0 + cp div 0x1000" "unat b2 = 0x80 + cp div 0x40 mod 0x40"
        "unat b3 = 0x80 + cp mod 0x40"
      by blast
    have n: "utf8_need b1 = 3"
      using u(5) by (simp add: utf8_need_def v Let_def)
    have l: "leading_ones (unat b1) = 3"
      using u(5) by (simp add: leading_ones_def v)
    have s: "utf8_second b1 b2"
      using u(5) u(6) u(7) [OF _ ns] by (auto simp add: utf8_second_def v)
    have c: "utf8_cont b3"
      by (simp add: utf8_cont_def v)
    show ?thesis
      unfolding e using n s c l digits64_3 [of cp]
      by (simp add: v)
  next
    case 4
    note u = utf8_4 [OF 4 lt]
    from u(1,2,3,4,5) obtain b1 b2 b3 b4 where e: "utf8_encode cp = [b1, b2, b3, b4]"
      and v: "unat b1 = 0xF0 + cp div 0x40000" "unat b2 = 0x80 + cp div 0x1000 mod 0x40"
        "unat b3 = 0x80 + cp div 0x40 mod 0x40" "unat b4 = 0x80 + cp mod 0x40"
      by blast
    have n: "utf8_need b1 = 4"
      using u(6) by (simp add: utf8_need_def v Let_def)
    have l: "leading_ones (unat b1) = 4"
      using u(6) by (simp add: leading_ones_def v)
    have s: "utf8_second b1 b2"
      using u(6,7,8) by (auto simp add: utf8_second_def v)
    have c: "utf8_cont b3" "utf8_cont b4"
      by (simp_all add: utf8_cont_def v)
    show ?thesis
      unfolding e using n s c l digits64_4 [of cp]
      by (simp add: v)
  qed
qed

lemma utf8_decode_encode:
  assumes "scalar cp"
  shows "utf8_decode (utf8_encode cp @ rest) = cp # utf8_decode rest"
proof -
  from utf8_scalar_encode [OF assms] obtain b bs where
    e: "utf8_encode cp = b # bs" and n: "utf8_need b = Suc (length bs)"
    and s: "utf8_scalar (b # bs) = Some cp"
    by auto
  show ?thesis
    unfolding e using n s by simp
qed

lemma utf8_decode_concat:
  assumes "\<forall>cp\<in>set cps. scalar cp"
  shows "utf8_decode (concat (map utf8_encode cps)) = cps"
  using assms by (induction cps) (simp_all add: utf8_decode_encode)

lemma well_formed_scalar: "well_formed s \<Longrightarrow> cp \<in> set (code_points s) \<Longrightarrow> scalar cp"
  using code_points_lt [of cp s] by (auto simp add: well_formed_def scalar_def list_ex_iff)

lemma Buffer_from_utf8_well_formed: "well_formed s \<Longrightarrow> Buffer_from_utf8 s = utf8_bytes s"
proof -
  have "concat (map (\<lambda>cp. if is_surrogate cp then [0xEF, 0xBF, 0xBD] else utf8_encode cp) cps)
      = concat (map utf8_encode cps)" if "\<not> list_ex is_surrogate cps" for cps
    using that by (induction cps) simp_all
  then show "well_formed s \<Longrightarrow> Buffer_from_utf8 s = utf8_bytes s"
    by (simp add: Buffer_from_utf8_def utf8_bytes_def well_formed_def)
qed

lemma Buffer_utf8_roundtrip:
  assumes "well_formed s"
  shows "Buffer_toString_utf8 (utf8_bytes s) = s"
proof -
  have "utf8_decode (utf8_bytes s) = code_points s"
    unfolding utf8_bytes_def using assms well_formed_scalar by (intro utf8_decode_concat) blast
  then show ?thesis by (simp add: Buffer_toString_utf8_def utf16_code_points)
qed

lemma base64_encode_sextets: "base64_encode bs = map b64_char (sextets bs) @ padding bs"
  by (induction bs rule: base64_encode.induct) simp_all

lemma sextets_lt: "n \<in> set (sextets bs) \<Longrightarrow> n < 64"
proof (induction bs arbitrary: n rule: sextets.induct)
  case 1
  then show ?case by simp
next
  case (2 a)
  then show ?case using unat_byte_lt [of a] by auto
next
  case (3 a b)
  then show ?case using unat_byte_lt [of a] unat_byte_lt [of b] by auto
next
  case (4 a b c r)
  then show ?case using unat_byte_lt [of a] unat_byte_lt [of b] unat_byte_lt [of c] by auto
qed

lemma of_nat_unat_byte: "(of_nat (unat (b :: byte)) :: byte) = b"
  by simp

lemma sextet_bytes:
  fixes a b c :: nat
  shows "a div 4 * 4 + (a mod 4 * 16 + b div 16 mod 16) div 16 = a"
    and "(a mod 4 * 16 + b div 16 mod 16) mod 16 * 16 + (b mod 16 * 4 + c div 64 mod 4) div 4
         = b div 16 mod 16 * 16 + b mod 16"
    and "(b mod 16 * 4 + c div 64 mod 4) mod 4 * 64 + c mod 64 = c div 64 mod 4 * 64 + c mod 64"
proof -
  have 1: "(x * 16 + y mod 16) div 16 = x" "(x * 16 + y mod 16) mod 16 = y mod 16" for x y :: nat
    by auto
  have 2: "(x * 4 + y mod 4) div 4 = x" "(x * 4 + y mod 4) mod 4 = y mod 4" for x y :: nat
    by auto
  show "a div 4 * 4 + (a mod 4 * 16 + b div 16 mod 16) div 16 = a"
    by (simp add: 1)
  show "(a mod 4 * 16 + b div 16 mod 16) mod 16 * 16 + (b mod 16 * 4 + c div 64 mod 4) div 4
         = b div 16 mod 16 * 16 + b mod 16"
    by (simp add: 1 2)
  show "(b mod 16 * 4 + c div 64 mod 4) mod 4 * 64 + c mod 64 = c div 64 mod 4 * 64 + c mod 64"
    by (simp add: 2)
qed

lemma byte_digits:
  "unat (b :: byte) div 16 mod 16 = unat b div 16" "unat b div 64 mod 4 = unat b div 64"
  "unat b div 16 * 16 + unat b mod 16 = unat b" "unat b div 64 * 64 + unat b mod 64 = unat b"
  using unat_byte_lt [of b] by auto

lemma sextet_bytes_1:
  "unat (a :: byte) div 4 * 4 + (unat a mod 4 * 16 + unat (b :: byte) div 16) div 16 = unat a"
  using sextet_bytes(1) [of "unat a" "unat b"] by (simp add: byte_digits)

lemma sextet_bytes_2:
  "(unat (a :: byte) mod 4 * 16 + unat (b :: byte) div 16) mod 16 * 16
     + (unat b mod 16 * 4 + unat (c :: byte) div 64) div 4 = unat b"
  using sextet_bytes(2) [of "unat a" "unat b" "unat c"] by (simp add: byte_digits)

lemma sextet_bytes_3:
  "(unat (b :: byte) mod 16 * 4 + unat (c :: byte) div 64) mod 4 * 64 + unat c mod 64 = unat c"
  using sextet_bytes(3) [of "unat b" "unat c"] by (simp add: byte_digits)

lemma sextet_bytes_1': "unat (a :: byte) div 4 * 4 + unat a mod 4 * 16 div 16 = unat a"
  by simp

lemma sextet_bytes_2':
  "(unat (a :: byte) mod 4 * 16 + unat (b :: byte) div 16) mod 16 * 16 + unat b mod 16 * 4 div 4
     = unat b"
proof -
  have "(x * 16 + y) mod 16 = y" if "y < 16" for x y :: nat
    using that by auto
  from this [of "unat b div 16" "unat a mod 4"] unat_byte_lt [of b] show ?thesis
    by simp
qed

lemma sextets_to_bytes_sextets: "sextets_to_bytes (sextets bs) = bs"
proof (induction bs rule: sextets.induct)
  case 1
  show ?case by simp
next
  case (2 a)
  show ?case
    by (simp only: sextets.simps sextets_to_bytes.simps sextet_bytes_1' of_nat_unat_byte)
next
  case (3 a b)
  show ?case
    by (simp only: sextets.simps sextets_to_bytes.simps sextet_bytes_1 sextet_bytes_2'
        of_nat_unat_byte)
next
  case (4 a b c r)
  show ?case
    by (simp only: sextets.simps sextets_to_bytes.simps sextet_bytes_1 sextet_bytes_2
        sextet_bytes_3 of_nat_unat_byte append.simps 4)
qed

lemma unat_b64_char:
  assumes "n < 64"
  shows "unat (b64_char n) =
     (if n < 26 then 0x41 + n else if n < 52 then 0x47 + n else if n < 62 then n - 4
      else if n = 62 then 0x2B else 0x2F)"
  using assms by (simp add: b64_char_def unat_of_nat del: of_nat_add of_nat_diff)

lemma b64_value_char: "n < 64 \<Longrightarrow> b64_value (b64_char n) = Some n"
  by (auto simp add: b64_value_def unat_b64_char Let_def)

lemma b64url_value_char: "n < 64 \<Longrightarrow> b64url_value (b64_char n) = Some n"
  by (auto simp add: b64url_value_def b64_value_def unat_b64_char Let_def)

lemma b64_char_not_pad: "n < 64 \<Longrightarrow> b64_char n \<noteq> 0x3D"
  by (auto simp add: word_unat_eq_iff unat_b64_char)

lemma b64_char_not_space: "n < 64 \<Longrightarrow> \<not> ascii_whitespace (b64_char n)"
  by (auto simp add: ascii_whitespace_def unat_b64_char)

lemma pad_not_space: "\<not> ascii_whitespace 0x3D"
  by (simp add: ascii_whitespace_def)

lemma padding_cases: "padding bs = [] \<or> padding bs = [0x3D] \<or> padding bs = [0x3D, 0x3D]"
  by (induction bs rule: padding.induct) simp_all

lemma length_sextets_padding:
  "(length (sextets bs) + length (padding bs)) mod 4 = 0
   \<and> (padding bs \<noteq> [] \<longrightarrow> sextets bs \<noteq> [])
   \<and> length (sextets bs) mod 4 \<noteq> 1"
  by (induction bs rule: sextets.induct) simp_all

lemma map_filter_b64url:
  "\<forall>n\<in>set ns. n < 64 \<Longrightarrow> List.map_filter b64url_value (map b64_char ns) = ns"
  by (induction ns) (simp_all add: map_filter_simps b64url_value_char)

lemma takeWhile_body:
  assumes "\<forall>n\<in>set ns. n < 64" and "p = [] \<or> p = [0x3D] \<or> p = [0x3D, 0x3D]"
  shows "takeWhile (\<lambda>c. c \<noteq> 0x3D) (map b64_char ns @ p) = map b64_char ns"
proof -
  have "\<forall>c\<in>set (map b64_char ns). c \<noteq> 0x3D"
    using assms(1) b64_char_not_pad by auto
  then have "takeWhile (\<lambda>c. c \<noteq> 0x3D) (map b64_char ns @ p)
      = map b64_char ns @ takeWhile (\<lambda>c. c \<noteq> 0x3D) p"
    by (intro takeWhile_append2) blast
  with assms(2) show ?thesis by auto
qed

lemma Buffer_from_base64_encode: "Buffer_from_base64 (base64_encode bs) = bs"
proof -
  have lt: "\<forall>n\<in>set (sextets bs). n < 64"
    using sextets_lt by blast
  show ?thesis
    unfolding Buffer_from_base64_def base64_encode_sextets
      takeWhile_body [OF lt padding_cases] map_filter_b64url [OF lt]
    by (rule sextets_to_bytes_sextets)
qed

lemma strip_padding_body:
  assumes x: "\<forall>c\<in>set xs. c \<noteq> 0x3D"
    and l: "length (xs @ p) mod 4 = 0"
    and p: "p = [] \<or> p = [0x3D] \<or> p = [0x3D, 0x3D]"
    and n: "p \<noteq> [] \<longrightarrow> xs \<noteq> []"
  shows "strip_padding (xs @ p) = xs"
proof -
  from p consider "p = []" | "p = [0x3D]" | "p = [0x3D, 0x3D]" by blast
  then show ?thesis
  proof cases
    case 1
    show ?thesis
    proof (cases "rev xs")
      case Nil
      with 1 show ?thesis by (simp add: strip_padding_def)
    next
      case (Cons e1 r)
      then have "e1 \<in> set xs" by (metis list.set_intros(1) set_rev)
      with x have "e1 \<noteq> 0x3D" by blast
      with 1 Cons show ?thesis by (simp add: strip_padding_def split: list.splits)
    qed
  next
    case 2
    with n obtain e2 r where r: "rev xs = e2 # r"
      by (cases "rev xs") auto
    then have "e2 \<in> set xs" by (metis list.set_intros(1) set_rev)
    with x have e: "e2 \<noteq> 0x3D" by blast
    have "rev (e2 # r) = xs" using r by (metis rev_rev_ident)
    with 2 l r e show ?thesis by (simp add: strip_padding_def)
  next
    case 3
    with l show ?thesis by (simp add: strip_padding_def)
  qed
qed

lemma atob_encode: "atob (base64_encode bs) = Inr (map ucast bs)"
proof -
  let ?xs = "map b64_char (sextets bs)"
  have lt: "\<forall>n\<in>set (sextets bs). n < 64"
    using sextets_lt by blast
  have np: "\<forall>c\<in>set ?xs. c \<noteq> 0x3D"
    using lt b64_char_not_pad by auto
  have ns: "\<forall>c\<in>set (?xs @ padding bs). \<not> ascii_whitespace c"
    using lt b64_char_not_space pad_not_space padding_cases [of bs] by auto
  then have f: "filter (\<lambda>c. \<not> ascii_whitespace c) (?xs @ padding bs) = ?xs @ padding bs"
    by (intro filter_True) blast
  note lp = length_sextets_padding [of bs]
  have s: "strip_padding (?xs @ padding bs) = ?xs"
    using lp by (intro strip_padding_body np padding_cases) simp_all
  have v: "list_all (\<lambda>c. b64_value c \<noteq> None) ?xs"
    using lt by (simp add: list_all_iff b64_value_char)
  have m: "map (\<lambda>c. the (b64_value c)) ?xs = sextets bs"
    using lt by (simp add: map_idI b64_value_char comp_def)
  show ?thesis
    unfolding atob_def base64_encode_sextets f s Let_def m
    using lp v by (simp add: sextets_to_bytes_sextets)
qed

lemma ucast_byte_eq_of_nat: "(ucast (b :: byte) :: jschar) = of_nat (unat b)"
  by simp

lemma utf8_encode_bytes:
  assumes "scalar cp"
  shows "(cp < 0x80 \<longrightarrow> utf8_encode cp = [of_nat cp])
       \<and> (0x80 \<le> cp \<longrightarrow> (\<forall>b\<in>set (utf8_encode cp). 0x80 \<le> unat b))"
proof -
  from assms have lt: "cp < 0x110000" by (simp add: scalar_def)
  consider "cp < 0x80" | "0x80 \<le> cp" "cp < 0x800" | "0x800 \<le> cp" "cp < 0x10000"
    | "0x10000 \<le> cp"
    by linarith
  then show ?thesis
  proof cases
    case 1
    then show ?thesis using utf8_1(1) by simp
  next
    case 2
    note u = utf8_2 [OF 2]
    from u(1,2,3) obtain b1 b2 where e: "utf8_encode cp = [b1, b2]"
      and v: "unat b1 = 0xC0 + cp div 0x40" "unat b2 = 0x80 + cp mod 0x40"
      by blast
    show ?thesis unfolding e using 2 by (simp add: v)
  next
    case 3
    note u = utf8_3 [OF 3]
    from u(1,2,3,4) obtain b1 b2 b3 where e: "utf8_encode cp = [b1, b2, b3]"
      and v: "unat b1 = 0xE0 + cp div 0x1000" "unat b2 = 0x80 + cp div 0x40 mod 0x40"
        "unat b3 = 0x80 + cp mod 0x40"
      by blast
    show ?thesis unfolding e using 3 by (simp add: v)
  next
    case 4
    note u = utf8_4 [OF 4 lt]
    from u(1,2,3,4,5) obtain b1 b2 b3 b4 where e: "utf8_encode cp = [b1, b2, b3, b4]"
      and v: "unat b1 = 0xF0 + cp div 0x40000" "unat b2 = 0x80 + cp div 0x1000 mod 0x40"
        "unat b3 = 0x80 + cp div 0x40 mod 0x40" "unat b4 = 0x80 + cp mod 0x40"
      by blast
    show ?thesis unfolding e using 4 by (simp add: v)
  qed
qed

lemma unescape_encoded_units:
  assumes "\<forall>cp\<in>set cps. scalar cp"
  shows "unescape (concat (map uri_encode_cp cps)) = map ucast (concat (map utf8_encode cps))"
  using assms
proof (induction cps)
  case Nil
  show ?case by simp
next
  case (Cons cp cps)
  then have sc: "scalar cp" and ih: "unescape (concat (map uri_encode_cp cps))
      = map ucast (concat (map utf8_encode cps))"
    by simp_all
  show ?case
  proof (cases "cp < 0x80 \<and> uri_unreserved (of_nat cp)")
    case True
    then have n: "(of_nat cp :: jschar) \<noteq> 0x25"
      using uri_unreserved_not_percent by blast
    from True have e: "uri_encode_cp cp = [of_nat cp]" "utf8_encode cp = [of_nat cp]"
      by (simp_all add: uri_encode_cp_def utf8_encode_def)
    from True have "(ucast (of_nat cp :: byte) :: jschar) = of_nat cp"
      by (simp add: unsigned_of_nat take_bit_nat_eq_self)
    with n e ih show ?thesis by simp
  next
    case False
    then have e: "uri_encode_cp cp = concat (map percent (utf8_encode cp))"
      by (auto simp add: uri_encode_cp_def)
    show ?thesis
      using ih by (simp add: e unescape_percents)
  qed
qed

lemma btoa_bytes: "btoa (map ucast (bs :: byte list)) = Inr (base64_encode bs)"
proof -
  have "unat (ucast b :: jschar) \<le> 0xFF" for b :: byte
    using unat_byte_lt [of b] by (simp add: unat_ucast_byte)
  then have "\<not> list_ex (\<lambda>c. 0xFF < unat c) (map ucast bs :: jsstring)"
    by (auto simp add: list_ex_iff not_less)
  moreover have "map ucast (map ucast bs :: jsstring) = bs"
    by (simp add: comp_def ucast_ucast_byte)
  ultimately show ?thesis by (simp add: btoa_def)
qed

lemma escape_append: "escape (xs @ ys) = escape xs @ escape ys"
  by (simp add: escape_def)

lemma escape_unescaped_ascii: "escape_unescaped c \<Longrightarrow> unat c < 0x80 \<and> c \<noteq> 0x25"
  by (auto simp add: escape_unescaped_def Let_def)

lemma escape_unit_high: "0x80 \<le> unat (b :: byte) \<Longrightarrow> escape_unit (ucast b) = percent b"
  using unat_byte_lt [of b] escape_unescaped_ascii [of "ucast b"]
  by (auto simp add: escape_unit_def unat_ucast_byte ucast_ucast_byte)

lemma escape_high: "\<forall>b\<in>set bs. 0x80 \<le> unat b \<Longrightarrow> escape (map ucast bs) = concat (map percent bs)"
  by (induction bs) (simp_all add: escape_def escape_unit_high)

lemma parse_octets_percent:
  "parse_octets (Suc n) (percent b @ s) =
     (case parse_octets n s of Some (bs, r') \<Rightarrow> Some (b # bs, r') | None \<Rightarrow> None)"
  by (simp add: percent_def parse_percent del: parse_hex2.simps
      cong: option.case_cong prod.case_cong)

lemma parse_octets_percents:
  "parse_octets (length bs) (concat (map percent bs) @ rest) = Some (bs, rest)"
  by (induction bs) (simp_all add: parse_octets_percent)

lemma decode_percent:
  "decodeURIComponent (percent b @ s) =
     (if leading_ones (unat b) = 0 then
        (case decodeURIComponent s of Inl e \<Rightarrow> Inl e | Inr r \<Rightarrow> Inr (ucast b # r))
      else if leading_ones (unat b) = 1 \<or> 4 < leading_ones (unat b) then Inl URIError
      else
        (case parse_octets (leading_ones (unat b) - 1) s of
           None \<Rightarrow> Inl URIError
         | Some (octets, s2) \<Rightarrow>
             (case utf8_scalar (b # octets) of
                None \<Rightarrow> Inl URIError
              | Some cp \<Rightarrow>
                  (case decodeURIComponent s2 of
                     Inl e \<Rightarrow> Inl e
                   | Inr r \<Rightarrow> Inr (utf16_encode cp @ r)))))"
  by (simp add: percent_def parse_percent del: parse_hex2.simps
      cong: option.case_cong prod.case_cong sum.case_cong)

lemma decode_percent_lead:
  assumes s: "utf8_scalar (b # bs) = Some cp"
    and l: "leading_ones (unat b) = Suc (length bs)" and n: "bs \<noteq> []"
    and r: "decodeURIComponent rest = Inr R"
  shows "decodeURIComponent (concat (map percent (b # bs)) @ rest) = Inr (utf16_encode cp @ R)"
proof -
  have len: "length bs \<le> 3"
    using s by (cases "b # bs" rule: utf8_scalar.cases) (auto split: if_splits)
  have o: "parse_octets (leading_ones (unat b) - 1) (concat (map percent bs) @ rest) = Some (bs, rest)"
    using parse_octets_percents [of bs rest] l by simp
  have "decodeURIComponent (percent b @ concat (map percent bs) @ rest) = Inr (utf16_encode cp @ R)"
    unfolding decode_percent o using l n len by (simp add: s r)
  then show ?thesis by simp
qed

lemma decode_escape_scalar:
  assumes sc: "scalar cp" and r: "decodeURIComponent rest = Inr R"
  shows "decodeURIComponent (escape (map ucast (utf8_encode cp)) @ rest) = Inr (utf16_encode cp @ R)"
proof (cases "cp < 0x80")
  case True
  with utf8_encode_bytes [OF sc] have e: "utf8_encode cp = [of_nat cp]" by simp
  from True have u: "unat (of_nat cp :: byte) = cp" "(ucast (of_nat cp :: byte) :: jschar) = of_nat cp"
    by (simp_all add: unat_of_nat_byte unsigned_of_nat take_bit_nat_eq_self)
  from True have x: "utf16_encode cp = [of_nat cp]" by (simp add: utf16_encode_def)
  show ?thesis
  proof (cases "escape_unescaped (of_nat cp)")
    case t: True
    then have "(of_nat cp :: jschar) \<noteq> 0x25" using escape_unescaped_ascii by blast
    with t show ?thesis
      unfolding e x by (simp add: escape_def escape_unit_def u r)
  next
    case f: False
    have c: "unat (of_nat cp :: jschar) < 0x100"
      using True by (simp add: unat_of_nat_jschar)
    have b: "(ucast (of_nat cp :: jschar) :: byte) = of_nat cp"
      using True by (simp add: ucast_of_nat_byte)
    have l: "leading_ones cp = 0" using True by (simp add: leading_ones_def)
    have "decodeURIComponent (percent (of_nat cp) @ rest) = Inr (of_nat cp # R)"
      unfolding decode_percent by (simp add: u l r)
    with f c show ?thesis
      unfolding e x by (simp add: escape_def escape_unit_def u b)
  qed
next
  case False
  from utf8_scalar_encode [OF sc] obtain b bs where
    e: "utf8_encode cp = b # bs" and s: "utf8_scalar (b # bs) = Some cp"
    and l: "leading_ones (unat b) = (if bs = [] then 0 else Suc (length bs))"
    and n: "utf8_need b = Suc (length bs)"
    by auto
  from False utf8_encode_bytes [OF sc] have h: "\<forall>x\<in>set (b # bs). 0x80 \<le> unat x"
    unfolding e by simp
  have ne: "bs \<noteq> []"
  proof
    assume "bs = []"
    with n h show False by (simp add: utf8_need_def Let_def split: if_splits)
  qed
  with l have l': "leading_ones (unat b) = Suc (length bs)" by simp
  show ?thesis
    unfolding e escape_high [OF h] by (rule decode_percent_lead [OF s l' ne r])
qed

lemma decode_escape_utf8:
  assumes "\<forall>cp\<in>set cps. scalar cp"
  shows "decodeURIComponent (escape (map ucast (concat (map utf8_encode cps))))
       = Inr (concat (map utf16_encode cps))"
  using assms
proof (induction cps)
  case Nil
  show ?case by (simp add: escape_def)
next
  case (Cons cp cps)
  then have "decodeURIComponent (escape (map ucast (concat (map utf8_encode cps))))
       = Inr (concat (map utf16_encode cps))" and "scalar cp"
    by simp_all
  from decode_escape_scalar [OF this(2) this(1)] show ?case
    by (simp add: escape_append)
qed

lemma encode_well_formed:
  assumes "well_formed s"
  shows "encodeUtf8ToBase64 w s = Inr (base64_encode (utf8_bytes s))"
proof (cases "s = []")
  case True
  then show ?thesis by (simp add: encodeUtf8ToBase64_def utf8_bytes_def)
next
  case False
  have sc: "\<forall>cp\<in>set (code_points s). scalar cp"
    using assms well_formed_scalar by blast
  have e: "encodeURIComponent s = Inr (concat (map uri_encode_cp (code_points s)))"
    using assms by (simp add: encodeURIComponent_def well_formed_def)
  show ?thesis
    using False assms
    by (simp add: encodeUtf8ToBase64_def Buffer_toString_base64_def Buffer_from_utf8_well_formed
        e unescape_encoded_units [OF sc] btoa_bytes utf8_bytes_def [symmetric])
qed

lemma base64_encode_Nil: "base64_encode bs = [] \<Longrightarrow> bs = []"
  by (cases bs rule: base64_encode.cases) simp_all

lemma decode_encoded:
  assumes "well_formed s"
  shows "decodeBase64ToUtf8 w (base64_encode (utf8_bytes s)) = Inr (Data s)"
proof (cases "base64_encode (utf8_bytes s) = []")
  case True
  then have "utf8_bytes s = []" by (rule base64_encode_Nil)
  with Buffer_utf8_roundtrip [OF assms] have "s = []"
    by (simp add: Buffer_toString_utf8_def)
  with True show ?thesis by (simp add: decodeBase64ToUtf8_def)
next
  case False
  have sc: "\<forall>cp\<in>set (code_points s). scalar cp"
    using assms well_formed_scalar by blast
  have d: "decodeURIComponent (escape (map ucast (utf8_bytes s))) = Inr s"
    unfolding utf8_bytes_def decode_escape_utf8 [OF sc] by (simp add: utf16_code_points)
  show ?thesis
    using False
    by (simp add: decodeBase64ToUtf8_def Buffer_from_base64_encode
        Buffer_utf8_roundtrip [OF assms] atob_encode d)
qed

text \<open>
  C2. For every well-formed string (one that has a UTF-8 encoding: no surrogate stands
  unpaired), the empty string and strings of multi-byte characters included, and in
  either environment (with \<open>Buffer\<close> or without), \<open>encodeUtf8ToBase64\<close> returns the
  Base64 text of the UTF-8 bytes, and \<open>decodeBase64ToUtf8\<close> of that text returns
  \<open>{data: s}\<close>, with no error.
\<close>

theorem codec_round_trip:
  assumes "well_formed s"
  shows "encodeUtf8ToBase64 w s = Inr (base64_encode (utf8_bytes s))
       \<and> decodeBase64ToUtf8 w (base64_encode (utf8_bytes s)) = Inr (Data s)"
  using assms encode_well_formed decode_encoded by blast

lemma strip_padding_cases:
  "strip_padding d = d
   \<or> (length d mod 4 = 0 \<and> d = strip_padding d @ [0x3D])
   \<or> (length d mod 4 = 0 \<and> d = strip_padding d @ [0x3D, 0x3D])"
proof (cases "rev d")
  case Nil
  then show ?thesis by (simp add: strip_padding_def)
next
  case (Cons e1 r1)
  show ?thesis
  proof (cases r1)
    case Nil
    with Cons show ?thesis by (simp add: strip_padding_def)
  next
    case (Cons e2 r)
    with \<open>rev d = e1 # r1\<close> have r: "rev d = e1 # e2 # r" by simp
    then have d: "d = rev r @ [e2, e1]"
      by (metis append_Cons append_Nil append_assoc rev.simps(2) rev_rev_ident)
    show ?thesis
      unfolding strip_padding_def r using d by simp
  qed
qed

lemma strip_padding_keeps:
  assumes "c \<in> set d" and "c \<noteq> 0x3D"
  shows "c \<in> set (strip_padding d)"
  using strip_padding_cases [of d] assms
  by (metis Un_iff empty_iff empty_set set_ConsD set_append)

lemma pad_in_set: "dropWhile (\<lambda>c. c \<noteq> (0x3D :: jschar)) d \<noteq> [] \<Longrightarrow> 0x3D \<in> set d"
  by (induction d) (auto split: if_splits)

lemma strip_padding_not_ok:
  assumes "\<not> pad_ok d"
  shows "0x3D \<in> set (strip_padding d)"
proof -
  from assms have p: "dropWhile (\<lambda>c. c \<noteq> 0x3D) d \<noteq> []"
    by (auto simp add: pad_ok_def Let_def)
  let ?y = "strip_padding d"
  from strip_padding_cases [of d] show ?thesis
  proof (elim disjE conjE)
    assume "?y = d"
    with p pad_in_set show ?thesis by simp
  next
    assume 2: "length d mod 4 = 0" "d = ?y @ [0x3D]"
    show ?thesis
    proof (rule ccontr)
      assume n: "0x3D \<notin> set ?y"
      then have "dropWhile (\<lambda>c. c \<noteq> 0x3D) (?y @ [0x3D]) = dropWhile (\<lambda>c. c \<noteq> 0x3D) [0x3D]"
        by (intro dropWhile_append2) auto
      with 2 have "dropWhile (\<lambda>c. c \<noteq> 0x3D) d = [0x3D]" by simp
      with 2(1) assms show False by (simp add: pad_ok_def)
    qed
  next
    assume 3: "length d mod 4 = 0" "d = ?y @ [0x3D, 0x3D]"
    show ?thesis
    proof (rule ccontr)
      assume n: "0x3D \<notin> set ?y"
      then have "dropWhile (\<lambda>c. c \<noteq> 0x3D) (?y @ [0x3D, 0x3D])
          = dropWhile (\<lambda>c. c \<noteq> 0x3D) [0x3D, 0x3D]"
        by (intro dropWhile_append2) auto
      with 3 have "dropWhile (\<lambda>c. c \<noteq> 0x3D) d = [0x3D, 0x3D]" by simp
      with 3(1) assms show False by (simp add: pad_ok_def)
    qed
  qed
qed

lemma b64_value_pad: "b64_value 0x3D = None"
  by (simp add: b64_value_def)

lemma atob_malformed:
  assumes "malformed_base64 s"
  shows "atob s = Inl InvalidCharacterError"
proof -
  let ?d = "filter (\<lambda>c. \<not> ascii_whitespace c) s"
  from assms consider "list_ex (\<lambda>c. b64_value c = None \<and> c \<noteq> 0x3D) ?d" | "\<not> pad_ok ?d"
    | "length ?d mod 4 = 1"
    by (auto simp add: malformed_base64_def Let_def)
  then have "length (strip_padding ?d) mod 4 = 1
      \<or> \<not> list_all (\<lambda>c. b64_value c \<noteq> None) (strip_padding ?d)"
  proof cases
    case 1
    then obtain c where c: "c \<in> set ?d" "b64_value c = None" "c \<noteq> 0x3D"
      by (auto simp add: list_ex_iff)
    from strip_padding_keeps [OF c(1,3)] c(2) show ?thesis
      by (auto simp add: list_all_iff)
  next
    case 2
    from strip_padding_not_ok [OF 2] b64_value_pad show ?thesis
      by (auto simp add: list_all_iff)
  next
    case 3
    then have "strip_padding ?d = ?d" by (simp add: strip_padding_def)
    with 3 show ?thesis by simp
  qed
  then show ?thesis
    unfolding atob_def Let_def by (simp only: if_True)
qed

text \<open>
  What holds of \<open>decodeBase64ToUtf8\<close>: the empty string decodes to \<open>{data: ""}\<close>, no
  input makes it throw, and in the branch without \<open>Buffer\<close> every non-empty input that
  is not Base64 (a character outside the alphabet other than ASCII whitespace, ill-formed
  padding, or a length of 1 modulo 4) yields the \<open>error\<close> field with the message of
  the exception, and no \<open>data\<close>.
\<close>

lemma decodeBase64ToUtf8_empty: "decodeBase64ToUtf8 w [] = Inr (Data [])"
  by (simp add: decodeBase64ToUtf8_def)

lemma decodeBase64ToUtf8_never_throws: "\<exists>r. decodeBase64ToUtf8 w input = Inr r"
  by (simp add: decodeBase64ToUtf8_def split: sum.splits)

lemma decodeBase64ToUtf8_atob_malformed:
  assumes "\<not> hasBuffer w" and "input \<noteq> []" and "malformed_base64 input"
  shows "decodeBase64ToUtf8 w input = Inr (Error (messageOf w InvalidCharacterError input))"
  using assms by (simp add: decodeBase64ToUtf8_def atob_malformed)

text \<open>In the branch with \<open>Buffer\<close> every input yields a \<open>data\<close> field.\<close>

lemma decodeBase64ToUtf8_buffer_data:
  assumes "hasBuffer w"
  shows "\<exists>d. decodeBase64ToUtf8 w input = Inr (Data d)"
  using assms by (simp add: decodeBase64ToUtf8_def)

lemma well_formed_emoji: "well_formed emoji_text"
  by (simp add: well_formed_def emoji_text_def is_high_def is_low_def is_surrogate_def)

lemma utf8_bytes_emoji: "utf8_bytes emoji_text = [0xF0, 0x9F, 0x98, 0x80, 0xE4, 0xB8, 0xAD, 0x61]"
  by (simp add: utf8_bytes_def emoji_text_def utf8_encode_def is_high_def is_low_def)

lemma base64_emoji:
  "base64_encode [0xF0, 0x9F, 0x98, 0x80, 0xE4, 0xB8, 0xAD, 0x61] = js ''8J+YgOS4rWE=''"
  by (simp add: b64_char_def js_def)

text \<open>C2 at an emoji, a CJK character and a letter, in both environments, and at the empty string.\<close>

theorem codec_round_trip_witness:
  "well_formed emoji_text
   \<and> encodeUtf8ToBase64 example_world emoji_text = Inr (js ''8J+YgOS4rWE='')
   \<and> decodeBase64ToUtf8 example_world (js ''8J+YgOS4rWE='') = Inr (Data emoji_text)
   \<and> encodeUtf8ToBase64 buffer_world emoji_text = Inr (js ''8J+YgOS4rWE='')
   \<and> decodeBase64ToUtf8 buffer_world (js ''8J+YgOS4rWE='') = Inr (Data emoji_text)
   \<and> encodeUtf8ToBase64 example_world [] = Inr []
   \<and> decodeBase64ToUtf8 example_world [] = Inr (Data [])"
proof -
  have e: "well_formed []" "base64_encode (utf8_bytes []) = []"
    by (simp_all add: well_formed_def utf8_bytes_def)
  from codec_round_trip [OF well_formed_emoji, of example_world]
    codec_round_trip [OF well_formed_emoji, of buffer_world]
    codec_round_trip [OF e(1), of example_world]
  show ?thesis
    unfolding utf8_bytes_emoji base64_emoji e(2) using well_formed_emoji by simp
qed

lemma example_no_buffer: "\<not> hasBuffer example_world"
  by (simp add: example_world_def)

lemma malformed_example: "malformed_base64 (js ''YQ=a'') \<and> malformed_base64 (js ''A'')"
  by (simp add: malformed_base64_def pad_ok_def js_def ascii_whitespace_def b64_value_def)

text \<open>
  Without \<open>Buffer\<close>, a misplaced \<open>=\<close> and a length of 1 modulo 4 each yield the
  \<open>error\<close> field, with the text the platform gives that cause.
\<close>

lemma decodeBase64ToUtf8_atob_messages:
  "decodeBase64ToUtf8 example_world (js ''YQ=a'') = Inr (Error (js ''Invalid character''))
   \<and> decodeBase64ToUtf8 example_world (js ''A'')
       = Inr (Error (js ''The string to be decoded is not correctly encoded.''))"
proof -
  have n: "js ''YQ=a'' \<noteq> []" "js ''A'' \<noteq> []"
    by (simp_all add: js_def)
  have m: "messageOf example_world InvalidCharacterError (js ''YQ=a'') = js ''Invalid character''"
    "messageOf example_world InvalidCharacterError (js ''A'')
       = js ''The string to be decoded is not correctly encoded.''"
    by (simp_all add: example_world_def example_message_def js_def strip_padding_def
        ascii_whitespace_def b64_value_def)
  from malformed_example n example_no_buffer show ?thesis
    by (simp add: decodeBase64ToUtf8_atob_malformed m)
qed

text \<open>
  \<open>atob\<close> passes over ASCII whitespace, as its standard prescribes: without
  \<open>Buffer\<close>, \<open>YQ ==\<close> decodes to \<open>{data: "a"}\<close>.
\<close>

lemma decodeBase64ToUtf8_atob_whitespace:
  "decodeBase64ToUtf8 example_world (js ''YQ =='') = Inr (Data (js ''a''))"
  by (simp add: decodeBase64ToUtf8_def example_world_def js_def
      b64_value_def atob_def strip_padding_def ascii_whitespace_def escape_def
      escape_unit_def escape_unescaped_def utf16_encode_def)

text \<open>
  C9 fails on the code in the branch with \<open>Buffer\<close>. The text \<open>!!!!\<close> has no
  character of the Base64 alphabet; with \<open>Buffer\<close> the decoder returns
  \<open>{data: ""}\<close> for it, where the claim demands the \<open>error\<close> field. The
  \<open>catch\<close> of that branch is there to return the message, and the branch without
  \<open>Buffer\<close> does return \<open>{error}\<close> on the same text.
\<close>

theorem decodeBase64ToUtf8_buffer_accepts_invalid:
  "hasBuffer buffer_world
   \<and> list_all (\<lambda>c. b64_value c = None \<and> c \<noteq> 0x3D) (js ''!!!!'')
   \<and> decodeBase64ToUtf8 buffer_world (js ''!!!!'') = Inr (Data [])
   \<and> \<not> hasBuffer example_world
   \<and> decodeBase64ToUtf8 example_world (js ''!!!!'') = Inr (Error (js ''Invalid character''))"
  by (simp add: decodeBase64ToUtf8_def buffer_world_def example_world_def example_message_def
      js_def Buffer_from_base64_def Buffer_toString_utf8_def b64url_value_def b64_value_def
      map_filter_simps atob_def strip_padding_def ascii_whitespace_def)

end
